theory Spec2Isabelle
  imports Main "HOL-Library.Sublist"
begin

section \<open>JavaScript values\<close>

text \<open>
  The generator is one JavaScript function, \<^verbatim>\<open>module.exports = function(options, callback)\<close>.
  Strings and the contents of a \<^verbatim>\<open>Buffer\<close> are modelled as \<^typ>\<open>string\<close>. Numbers that
  the program computes with are integers (byte counts, character lengths) or \<^verbatim>\<open>NaN\<close>.
\<close>

datatype jsnumber = NaN | Num int

datatype jsvalue = Undefined | Null | Bool bool | Number jsnumber | String string

datatype jsError = Error string

type_synonym jsobject = "(string \<times> jsvalue) list"

text \<open>Property read \<^verbatim>\<open>obj.k\<close> (a missing property reads \<^verbatim>\<open>undefined\<close>) and property write.\<close>

definition get :: "jsobject \<Rightarrow> string \<Rightarrow> jsvalue" where
  "get obj k = (case map_of obj k of None \<Rightarrow> Undefined | Some v \<Rightarrow> v)"

fun put :: "('k \<times> 'v) list \<Rightarrow> 'k \<Rightarrow> 'v \<Rightarrow> ('k \<times> 'v) list" where
  "put [] k v = [(k, v)]"
| "put ((k', v') # obj) k v = (if k' = k then (k, v) # obj else (k', v') # put obj k v)"

text \<open>Truthiness of an optional string option: \<^verbatim>\<open>undefined\<close> and \<^verbatim>\<open>''\<close> are falsy.\<close>

definition truthy :: "string option \<Rightarrow> bool" where
  "truthy v = (case v of None \<Rightarrow> False | Some s \<Rightarrow> s \<noteq> [])"

text \<open>\<^verbatim>\<open>v || d\<close> for an optional string.\<close>

definition or_default :: "string option \<Rightarrow> string \<Rightarrow> string" where
  "or_default v d = (case v of None \<Rightarrow> d | Some s \<Rightarrow> if s = [] then d else s)"

text \<open>
  \<^verbatim>\<open>toLowerCase\<close> and \<^verbatim>\<open>toUpperCase\<close> on the ASCII letters; other bytes are left as
  they are.
\<close>

definition toLowerChar :: "char \<Rightarrow> char" where
  "toLowerChar c =
     (case map_of (zip ''ABCDEFGHIJKLMNOPQRSTUVWXYZ'' ''abcdefghijklmnopqrstuvwxyz'') c of
        None \<Rightarrow> c | Some l \<Rightarrow> l)"

definition toUpperChar :: "char \<Rightarrow> char" where
  "toUpperChar c =
     (case map_of (zip ''abcdefghijklmnopqrstuvwxyz'' ''ABCDEFGHIJKLMNOPQRSTUVWXYZ'') c of
        None \<Rightarrow> c | Some u \<Rightarrow> u)"

definition toLowerCase :: "string \<Rightarrow> string" where
  "toLowerCase s = map toLowerChar s"

text \<open>Decimal printing of an integer, as \<^verbatim>\<open>ToString\<close> does for integral numbers.\<close>

definition digit_char :: "nat \<Rightarrow> char" where
  "digit_char d = ''0123456789'' ! (d mod 10)"

function show_nat :: "nat \<Rightarrow> string" where
  "show_nat n = (if n < 10 then [digit_char n] else show_nat (n div 10) @ [digit_char (n mod 10)])"
  by pat_completeness auto
termination
  by (relation "measure id") auto

declare show_nat.simps [simp del]

definition show_int :: "int \<Rightarrow> string" where
  "show_int i = (if i < 0 then ''-'' @ show_nat (nat (- i)) else show_nat (nat i))"

fun js_toString :: "jsvalue \<Rightarrow> string" where
  "js_toString Undefined = ''undefined''"
| "js_toString Null = ''null''"
| "js_toString (Bool b) = (if b then ''true'' else ''false'')"
| "js_toString (Number NaN) = ''NaN''"
| "js_toString (Number (Num i)) = show_int i"
| "js_toString (String s) = s"

text \<open>
  \<^verbatim>\<open>parseInt(v)\<close> with no radix: the argument is converted to a string, leading white
  space is dropped, a sign is read, a \<^verbatim>\<open>0x\<close> prefix selects radix 16, and the longest
  prefix of digits is the value; no digit gives \<^verbatim>\<open>NaN\<close>.
\<close>

definition isWhiteSpace :: "char \<Rightarrow> bool" where
  "isWhiteSpace c = (c \<in> set [CHR '' '', CHR 0x09, CHR 0x0A, CHR 0x0B, CHR 0x0C, CHR 0x0D])"

definition digit_val :: "char \<Rightarrow> nat option" where
  "digit_val c =
     map_of (zip ''0123456789abcdefABCDEF''
                 [0, 1, 2, 3, 4, 5, 6, 7, 8, 9, 10, 11, 12, 13, 14, 15, 10, 11, 12, 13, 14, 15]) c"

definition is_digit :: "nat \<Rightarrow> char \<Rightarrow> bool" where
  "is_digit r c = (case digit_val c of None \<Rightarrow> False | Some d \<Rightarrow> d < r)"

definition digits_value :: "nat \<Rightarrow> string \<Rightarrow> nat" where
  "digits_value r ds =
     foldl (\<lambda>a c. a * r + (case digit_val c of None \<Rightarrow> 0 | Some d \<Rightarrow> d)) 0 ds"

definition parse_digits :: "nat \<Rightarrow> string \<Rightarrow> nat option" where
  "parse_digits r s =
     (let ds = takeWhile (is_digit r) s in if ds = [] then None else Some (digits_value r ds))"

definition parse_radix :: "string \<Rightarrow> nat option" where
  "parse_radix s =
     (if prefix ''0x'' s \<or> prefix ''0X'' s then parse_digits 16 (drop 2 s) else parse_digits 10 s)"

definition parseInt_string :: "string \<Rightarrow> jsnumber" where
  "parseInt_string s0 =
     (let s = dropWhile isWhiteSpace s0;
          neg = prefix ''-'' s;
          body = (if prefix ''-'' s \<or> prefix ''+'' s then drop 1 s else s)
      in case parse_radix body of
           None \<Rightarrow> NaN
         | Some n \<Rightarrow> Num (if neg then - int n else int n))"

definition parseInt :: "jsvalue \<Rightarrow> jsnumber" where
  "parseInt v = parseInt_string (js_toString v)"

text \<open>\<^verbatim>\<open>n || null\<close> for a number: \<^verbatim>\<open>NaN\<close> and \<^verbatim>\<open>0\<close> are falsy.\<close>

definition or_null :: "jsnumber \<Rightarrow> jsvalue" where
  "or_null n = (case n of NaN \<Rightarrow> Null | Num i \<Rightarrow> if i = 0 then Null else Number (Num i))"

text \<open>
  \<^verbatim>\<open>a + n\<close> where \<^verbatim>\<open>n\<close> is a number: \<^verbatim>\<open>undefined\<close> converts to \<^verbatim>\<open>NaN\<close>, and
  \<^verbatim>\<open>NaN\<close> absorbs. (Only the cases the program can reach are numbers and
  \<^verbatim>\<open>undefined\<close>; \<^verbatim>\<open>null\<close> and booleans convert as JavaScript converts them, a string
  concatenates.)
\<close>

fun js_plus :: "jsvalue \<Rightarrow> int \<Rightarrow> jsvalue" where
  "js_plus Undefined n = Number NaN"
| "js_plus Null n = Number (Num n)"
| "js_plus (Bool b) n = Number (Num ((if b then 1 else 0) + n))"
| "js_plus (Number NaN) n = Number NaN"
| "js_plus (Number (Num a)) n = Number (Num (a + n))"
| "js_plus (String s) n = String (s @ show_int n)"


section \<open>Options\<close>

text \<open>
  A table-name pattern (a \<^verbatim>\<open>RegExp\<close>, or a string that \<^verbatim>\<open>String.prototype.match\<close>
  turns into one) is represented by its matching predicate: \<open>re name\<close> holds when
  \<^verbatim>\<open>name.match(re) !== null\<close>.
\<close>

type_synonym regex = "string \<Rightarrow> bool"

datatype outputFile_value = OutUndefined | OutString string | OutNumber int

record options =
  dsn :: "string option"
  dialect :: "string option"
  database :: "string option"
  schema :: "string option"
  indent :: "string option"
  outputFile :: outputFile_value
  camelize_opt :: bool
  eol :: "string option"
  encoding :: "string option"
  prepend :: "string option"
  append_opt :: "string option"
  omitComments :: bool
  includeSchema :: bool
  modularize :: bool
  includeMeta :: bool
  includeRegex :: "regex list option"
  excludeRegex :: "regex list option"


section \<open>Dialect resolution\<close>

text \<open>
  \<^verbatim>\<open>var supportedDialects = { mysql: 1, pg: 1, mssql: 1 }\<close> is an object literal, so a
  property read \<^verbatim>\<open>supportedDialects[d]\<close> also finds what the object inherits from
  \<^verbatim>\<open>Object.prototype\<close>; every inherited property is a function or an object, hence
  truthy.
\<close>

definition supportedDialects :: "(string \<times> int) list" where
  "supportedDialects = [(''mysql'', 1), (''pg'', 1), (''mssql'', 1)]"

definition Object_prototype :: "string list" where
  "Object_prototype =
     [''constructor'', ''__defineGetter__'', ''__defineSetter__'', ''hasOwnProperty'',
      ''__lookupGetter__'', ''__lookupSetter__'', ''isPrototypeOf'', ''propertyIsEnumerable'',
      ''toString'', ''valueOf'', ''__proto__'', ''toLocaleString'']"

definition supported :: "string \<Rightarrow> bool" where
  "supported d =
     (case map_of supportedDialects d of
        Some n \<Rightarrow> n \<noteq> 0
      | None \<Rightarrow> d \<in> set Object_prototype)"

text \<open>
  \<^verbatim>\<open>/^(mysql|postgres|mssql)/i.exec(options.dsn)\<close>: the first group of the match, a
  prefix of the DSN in the DSN's own letter case.
\<close>

definition dsn_match :: "string \<Rightarrow> string option" where
  "dsn_match s =
     (let l = toLowerCase s in
      if prefix ''mysql'' l then Some (take 5 s)
      else if prefix ''postgres'' l then Some (take 8 s)
      else if prefix ''mssql'' l then Some (take 5 s)
      else None)"

text \<open>
  Lines 34 to 57: the result is the error handed to the callback, or the resolved
  \<^verbatim>\<open>options.dialect\<close> with which the function goes on.
\<close>

definition inferDialect :: "options \<Rightarrow> string \<Rightarrow> jsError + string" where
  "inferDialect opts s =
     (if \<not> truthy (dialect opts) then
        (case dsn_match s of
           None \<Rightarrow> Inl (Error ''options.dialect is required'')
         | Some m \<Rightarrow>
             (let d = toLowerCase m in Inr (if d = ''postgres'' then ''pg'' else d)))
      else Inr (or_default (dialect opts) []))"

definition resolveDialect :: "options \<Rightarrow> jsError + string" where
  \<open>resolveDialect opts =
     (if \<not> truthy (dsn opts) then Inl (Error ''options.dsn is required'')
      else
        (case inferDialect opts (or_default (dsn opts) []) of
           Inl e \<Rightarrow> Inl e
         | Inr d0 \<Rightarrow>
             (let d = toLowerCase d0 in
              if \<not> supported d then
                Inl (Error ''options.dialect must be either "mysql", "pg" or "mssql"'')
              else Inr d)))\<close>


section \<open>Fetching metadata\<close>

text \<open>
  \<^verbatim>\<open>getListOfTables\<close>: the callback that maps every fetched row (here: its \<^verbatim>\<open>name\<close>) to
  the name or to \<^verbatim>\<open>undefined\<close>, and the filter that drops \<^verbatim>\<open>undefined\<close>. An array is
  truthy even when it is empty, so an option is given exactly when it is \<open>Some\<close>.
\<close>

definition tableRow :: "options \<Rightarrow> string \<Rightarrow> string option" where
  "tableRow opts name =
     (if includeRegex opts \<noteq> None \<or> excludeRegex opts \<noteq> None then
        (case includeRegex opts of
           Some inc \<Rightarrow>
             if list_ex (\<lambda>re. re name) inc then
               (case excludeRegex opts of
                  Some exc \<Rightarrow> if \<not> list_all (\<lambda>re. \<not> re name) exc then None else Some name
                | None \<Rightarrow> Some name)
             else None
         | None \<Rightarrow>
             (case excludeRegex opts of
                Some exc \<Rightarrow> if \<not> list_all (\<lambda>re. \<not> re name) exc then None else Some name
              | None \<Rightarrow> None))
      else Some name)"

definition filterTables :: "options \<Rightarrow> string list \<Rightarrow> string list" where
  "filterTables opts rows = List.map_filter (tableRow opts) rows"

text \<open>The filter as the specification words it.\<close>

definition spec_keeps :: "options \<Rightarrow> string \<Rightarrow> bool" where
  "spec_keeps opts name =
     ((case includeRegex opts of None \<Rightarrow> True | Some inc \<Rightarrow> (\<exists>re \<in> set inc. re name)) \<and>
      (case excludeRegex opts of None \<Rightarrow> True | Some exc \<Rightarrow> (\<forall>re \<in> set exc. \<not> re name)))"

text \<open>
  \<^verbatim>\<open>getListOfColumns\<close>: the callback that normalises one fetched row. The query selects
  the aliases \<^verbatim>\<open>name\<close>, \<^verbatim>\<open>nullable\<close>, \<^verbatim>\<open>defaultValue\<close>, \<^verbatim>\<open>charLength\<close> and \<^verbatim>\<open>type\<close>; the
  callback updates the row object in place.
\<close>

definition normalizeType :: "jsobject \<Rightarrow> jsobject" where
  "normalizeType col =
     (if get col ''type'' = String ''character varying'' then put col ''type'' (String ''varchar'')
      else if get col ''type'' = String ''character'' then put col ''type'' (String ''char'')
      else if get col ''type'' = String ''integer'' then put col ''type'' (String ''int'')
      else col)"

definition normalizeColumn :: "jsobject \<Rightarrow> jsobject" where
  "normalizeColumn col0 =
     (let col1 = normalizeType col0;
          col2 = put col1 ''nullable'' (Bool (get col1 ''nullable'' = String ''YES''));
          col3 = put col2 ''maxLength'' (or_null (parseInt (get col2 ''maxLength'')))
      in col3)"

text \<open>The row shape the query of \<^verbatim>\<open>getListOfColumns\<close> returns.\<close>

definition fetched_column :: "jsobject \<Rightarrow> bool" where
  "fetched_column col =
     (map fst col = [''name'', ''nullable'', ''defaultValue'', ''charLength'', ''type''])"


section \<open>The mssql connection string\<close>

definition dq :: string where
  "dq = [CHR 0x22]"

definition sq :: string where
  "sq = [CHR 0x27]"

text \<open>\<^verbatim>\<open>s.replace(pat, rep)\<close> with a string pattern replaces the first occurrence only.\<close>

fun replace_first :: "string \<Rightarrow> string \<Rightarrow> string \<Rightarrow> string" where
  "replace_first pat rep [] = (if pat = [] then rep else [])"
| "replace_first pat rep (c # cs) =
     (if prefix pat (c # cs) then rep @ drop (length pat) (c # cs)
      else c # replace_first pat rep cs)"

text \<open>\<^verbatim>\<open>s.replace(/c/g, rep)\<close> for a one-character pattern replaces every occurrence.\<close>

definition replace_all :: "char \<Rightarrow> string \<Rightarrow> string \<Rightarrow> string" where
  "replace_all c rep s = concat (map (\<lambda>x. if x = c then rep else [x]) s)"

definition strip_semicolon :: "string \<Rightarrow> string" where
  "strip_semicolon s = (if s \<noteq> [] \<and> last s = CHR '';'' then butlast s else s)"

text \<open>The text handed to \<^verbatim>\<open>JSON.parse\<close> (lines 314 to 324).\<close>

definition mssql_json :: "string \<Rightarrow> string" where
  "mssql_json s =
     ''{'' @ dq @
     replace_all (CHR '';'') (dq @ '','' @ dq)
       (replace_all (CHR ''='') (dq @ '':'' @ dq)
         (replace_first ''mssql://'' [] (strip_semicolon s))) @
     dq @ ''}''"

text \<open>
  \<^verbatim>\<open>JSON.parse\<close> is modelled on the texts this program builds from well-formed connection
  strings: an object whose members are string literals without escapes, with no white
  space between the tokens. A character of such a literal is any character but the
  double quote, the backslash and the control characters. On any other text the result
  is left to the parameter \<open>other\<close> (the rest of \<^verbatim>\<open>JSON.parse\<close>).
\<close>

definition plain :: "char \<Rightarrow> bool" where
  "plain c = (c \<noteq> CHR 0x22 \<and> c \<noteq> CHR 0x5C \<and> 32 \<le> (of_char c :: nat))"

definition read_string :: "string \<Rightarrow> (string \<times> string) option" where
  "read_string s =
     (case s of
        [] \<Rightarrow> None
      | c # cs \<Rightarrow>
          if c \<noteq> CHR 0x22 then None
          else
            (case dropWhile plain cs of
               [] \<Rightarrow> None
             | d # ds \<Rightarrow> if d = CHR 0x22 then Some (takeWhile plain cs, ds) else None))"

lemma read_string_shorter: "read_string s = Some (x, r) \<Longrightarrow> length r < length s"
proof -
  assume a: "read_string s = Some (x, r)"
  then obtain c cs where s: "s = c # cs"
    by (cases s) (auto simp: read_string_def)
  from a s obtain d where d: "dropWhile plain cs = d # r"
    by (auto simp: read_string_def split: list.splits if_splits)
  have "length (dropWhile plain cs) \<le> length cs"
    by (rule length_dropWhile_le)
  with d s show ?thesis by simp
qed

function read_members :: "string \<Rightarrow> (string \<times> string) list option" where
  "read_members s =
     (case read_string s of
        None \<Rightarrow> None
      | Some (k, r1) \<Rightarrow>
          (case r1 of
             [] \<Rightarrow> None
           | c1 # r2 \<Rightarrow>
               if c1 \<noteq> CHR '':'' then None
               else
                 (case read_string r2 of
                    None \<Rightarrow> None
                  | Some (v, r3) \<Rightarrow>
                      (case r3 of
                         [] \<Rightarrow> None
                       | c3 # r4 \<Rightarrow>
                           if c3 = CHR ''}'' \<and> r4 = [] then Some [(k, v)]
                           else if c3 = CHR '','' then
                             (case read_members r4 of
                                None \<Rightarrow> None
                              | Some ms \<Rightarrow> Some ((k, v) # ms))
                           else None))))"
  by pat_completeness auto
termination
proof (relation "measure length", goal_cases)
  case 1
  show ?case by simp
next
  case (2 s x2 k r1 c1 r2 x2a v r3 c3 r4)
  then have "length r1 < length s" and "length r3 < length r2"
    by (auto dest: read_string_shorter)
  with 2 show ?case by simp
qed

declare read_members.simps [simp del]

text \<open>Members are stored in the order they are read; a repeated key keeps its last value.\<close>

definition object_of :: "(string \<times> string) list \<Rightarrow> jsobject" where
  "object_of ms = foldl (\<lambda>obj (k, v). put obj k (String v)) [] ms"

definition JSON_parse :: "(string \<Rightarrow> jsError + jsobject) \<Rightarrow> string \<Rightarrow> jsError + jsobject" where
  "JSON_parse other s =
     (case s of
        [] \<Rightarrow> other s
      | c # r \<Rightarrow>
          if c \<noteq> CHR ''{'' then other s
          else (case read_members r of None \<Rightarrow> other s | Some ms \<Rightarrow> Inr (object_of ms)))"

text \<open>\<^verbatim>\<open>a || b\<close> where \<open>a\<close> is an optional string and \<open>b\<close> any value, kept when truthy.\<close>

fun js_truthy :: "jsvalue \<Rightarrow> bool" where
  "js_truthy Undefined = False"
| "js_truthy Null = False"
| "js_truthy (Bool b) = b"
| "js_truthy (Number NaN) = False"
| "js_truthy (Number (Num i)) = (i \<noteq> 0)"
| "js_truthy (String s) = (s \<noteq> [])"

definition or_value :: "string option \<Rightarrow> jsvalue \<Rightarrow> string option" where
  "or_value a b = (if truthy a then a else if js_truthy b then Some (js_toString b) else None)"

definition or_else :: "string option \<Rightarrow> string option \<Rightarrow> string option" where
  "or_else a b = (if truthy a then a else b)"


section \<open>The environment and the state of a run\<close>

text \<open>
  The collaborators outside the generator answer through the environment: the database
  driver (the database name it reads from the DSN, the outcome of \<^verbatim>\<open>connect\<close>, the rows or
  the error of the two kinds of query), the file system (\<^verbatim>\<open>fs.open\<close>, \<^verbatim>\<open>fs.write\<close> with
  the number of bytes written, \<^verbatim>\<open>fs.close\<close>), \<^verbatim>\<open>package.json\<close> and the clock. A table
  row is its \<^verbatim>\<open>name\<close>. The \<open>n\<close>-th call of \<^verbatim>\<open>fs.write\<close> may answer differently from the
  others, so it receives the number of earlier calls. Node's \<^verbatim>\<open>Buffer\<close> is a collaborator
  too: \<open>Buffer_new env encoding string\<close> is the content of \<^verbatim>\<open>new Buffer(string, encoding)\<close>,
  byte by byte, and \<open>Buffer_toString env bytes\<close> is what \<^verbatim>\<open>toString()\<close> makes of a buffer of
  that content, decoding it as UTF-8. (The encoding is one that \<^verbatim>\<open>Buffer\<close> knows.)
\<close>

record env =
  client_database :: "string option"
  json_other :: "string \<Rightarrow> jsError + jsobject"
  info_name :: string
  info_version :: string
  now :: string
  fs_open :: "string \<Rightarrow> jsError + nat"
  fs_write :: "nat \<Rightarrow> nat \<Rightarrow> string \<Rightarrow> jsError option \<times> nat"
  fs_close :: "nat \<Rightarrow> jsError option"
  Buffer_new :: "string \<Rightarrow> string \<Rightarrow> string"
  Buffer_toString :: "string \<Rightarrow> string"
  db_connect :: "jsError option"
  db_tables :: "jsError + string list"
  db_columns :: "string \<Rightarrow> jsError + jsobject list"

text \<open>
  The \<^verbatim>\<open>stats\<close> object (lines 241 to 248) without its dates. It is created with the
  properties \<^verbatim>\<open>written\<close>, \<^verbatim>\<open>buffer\<close> and \<^verbatim>\<open>tables\<close>; \<^verbatim>\<open>bytesWritten\<close> is not among them, so
  it reads \<^verbatim>\<open>undefined\<close> until it is assigned.
\<close>

record stats =
  written :: int
  buffer :: string
  tables :: "(string \<times> jsobject list) list"
  bytesWritten :: jsvalue

definition initial_stats :: stats where
  "initial_stats = \<lparr>written = 0, buffer = [], tables = [], bytesWritten = Undefined\<rparr>"

datatype step = OpenFile | Connect | WriteHead | FetchTables | ProcessTables | WriteTail

text \<open>
  What a run does, in order: a step of the pipeline is started (\<open>Run\<close>) and calls its
  continuation (\<open>Next\<close>), \<^verbatim>\<open>write\<close> is called and has built its text (\<open>Write\<close>), the file
  system or the database driver is called, the caller's callback is invoked.
\<close>

datatype event =
    Run step
  | Next step "jsError option"
  | Write string
  | FsOpen string
  | FsWrite nat string
  | FsClose nat
  | DbConnect
  | DbTables
  | DbColumns string
  | Callback "jsError option" "stats option"

record state =
  fd :: "nat option"
  stats :: stats
  tableNames :: "string list"
  trace :: "event list"

definition initial_state :: state where
  "initial_state = \<lparr>fd = None, stats = initial_stats, tableNames = [], trace = []\<rparr>"

definition log_event :: "event \<Rightarrow> state \<Rightarrow> state" where
  "log_event e st = st\<lparr>trace := trace st @ [e]\<rparr>"

fun write_text :: "event \<Rightarrow> string list" where
  "write_text (Write t) = [t]"
| "write_text _ = []"

fun run_step_of :: "event \<Rightarrow> step list" where
  "run_step_of (Run s) = [s]"
| "run_step_of _ = []"

fun next_of :: "event \<Rightarrow> (step \<times> jsError option) list" where
  "next_of (Next s e) = [(s, e)]"
| "next_of _ = []"

fun callback_of :: "event \<Rightarrow> (jsError option \<times> stats option) list" where
  "callback_of (Callback e s) = [(e, s)]"
| "callback_of _ = []"

fun fs_write_of :: "event \<Rightarrow> (nat \<times> string) list" where
  "fs_write_of (FsWrite d t) = [(d, t)]"
| "fs_write_of _ = []"

text \<open>The calls of \<^verbatim>\<open>write\<close> and of the collaborators that a step makes.\<close>

fun is_io :: "event \<Rightarrow> bool" where
  "is_io (Run s) = False"
| "is_io (Next s e) = False"
| "is_io (Callback e s) = False"
| "is_io (FsClose d) = False"
| "is_io _ = True"

definition writes :: "event list \<Rightarrow> string list" where
  "writes tr = concat (map write_text tr)"

definition runs :: "event list \<Rightarrow> step list" where
  "runs tr = concat (map run_step_of tr)"

definition nexts :: "event list \<Rightarrow> (step \<times> jsError option) list" where
  "nexts tr = concat (map next_of tr)"

definition callbacks :: "event list \<Rightarrow> (jsError option \<times> stats option) list" where
  "callbacks tr = concat (map callback_of tr)"

definition fs_writes :: "event list \<Rightarrow> (nat \<times> string) list" where
  "fs_writes tr = concat (map fs_write_of tr)"



section \<open>Writing\<close>

definition eol_of :: "options \<Rightarrow> string" where
  "eol_of opts = or_default (eol opts) [CHR 0x0A]"

definition indent_of :: "options \<Rightarrow> string" where
  "indent_of opts = or_default (indent opts) [CHR 0x09]"

definition encoding_of :: "options \<Rightarrow> string" where
  "encoding_of opts = or_default (encoding opts) ''utf8''"

text \<open>\<^verbatim>\<open>xs.join(sep)\<close>\<close>

fun join :: "'a list \<Rightarrow> 'a list list \<Rightarrow> 'a list" where
  "join sep [] = []"
| "join sep [x] = x"
| "join sep (x # y # ys) = x @ sep @ join sep (y # ys)"

text \<open>
  The string that \<^verbatim>\<open>write\<close> builds from its arguments but the last (every argument the
  program passes is a string).
\<close>

definition write_string :: "options \<Rightarrow> string list \<Rightarrow> string" where
  "write_string opts args = join (eol_of opts) (filter (\<lambda>message. message \<noteq> []) args) @ eol_of opts"

text \<open>\<^verbatim>\<open>if (fd)\<close>: \<^verbatim>\<open>null\<close> and \<^verbatim>\<open>0\<close> are falsy.\<close>

definition fd_open :: "nat option \<Rightarrow> bool" where
  "fd_open d = (case d of None \<Rightarrow> False | Some n \<Rightarrow> n \<noteq> 0)"

definition add_bytes :: "int \<Rightarrow> stats \<Rightarrow> stats" where
  "add_bytes n s = s\<lparr>bytesWritten := js_plus (bytesWritten s) n\<rparr>"

text \<open>\<^verbatim>\<open>write\<close> (lines 98 to 116), applied to its arguments but the continuation.\<close>

definition js_write :: "env \<Rightarrow> options \<Rightarrow> string list \<Rightarrow> state \<Rightarrow> jsError option \<times> state" where
  "js_write env opts args st0 =
     (let string = write_string opts args;
          buf = Buffer_new env (encoding_of opts) string;
          st = log_event (Write string) st0
      in if fd_open (fd st) then
           (case fd st of
              None \<Rightarrow> (None, st)
            | Some d \<Rightarrow>
                (case fs_write env d (length (fs_writes (trace st))) buf of
                   (err, n) \<Rightarrow>
                     (err, (log_event (FsWrite d buf) st)\<lparr>stats := add_bytes (int n) (stats st)\<rparr>)))
         else
           (None, st\<lparr>stats := add_bytes (int (length buf))
                                ((stats st)\<lparr>buffer := buffer (stats st) @ Buffer_toString env buf\<rparr>)\<rparr>))"

text \<open>
  \<^verbatim>\<open>async.series(functions, callback)\<close>: the functions run one after another, each once
  the one before has called its continuation; the first error ends the series.
  \<^verbatim>\<open>async.eachSeries(xs, f, callback)\<close> does the same with \<open>f\<close> on every element.
\<close>

fun series :: "('s \<Rightarrow> jsError option \<times> 's) list \<Rightarrow> 's \<Rightarrow> jsError option \<times> 's" where
  "series [] st = (None, st)"
| "series (f # fs) st = (case f st of (None, st') \<Rightarrow> series fs st' | (Some e, st') \<Rightarrow> (Some e, st'))"

definition eachSeries :: "'a list \<Rightarrow> ('a \<Rightarrow> 's \<Rightarrow> jsError option \<times> 's) \<Rightarrow> 's \<Rightarrow> jsError option \<times> 's" where
  "eachSeries xs f st = series (map f xs) st"


section \<open>The steps of the pipeline\<close>

definition openFile :: "env \<Rightarrow> options \<Rightarrow> state \<Rightarrow> jsError option \<times> state" where
  "openFile env opts st =
     (case outputFile opts of
        OutString path \<Rightarrow>
          (case fs_open env path of
             Inl err \<Rightarrow> (Some err, log_event (FsOpen path) st)
           | Inr descriptor \<Rightarrow> (None, (log_event (FsOpen path) st)\<lparr>fd := Some descriptor\<rparr>))
      | OutNumber n \<Rightarrow> (None, if n = 1 then st\<lparr>fd := Some 1\<rparr> else st)
      | OutUndefined \<Rightarrow> (None, st))"

definition connect :: "env \<Rightarrow> state \<Rightarrow> jsError option \<times> state" where
  "connect env st = (db_connect env, log_event DbConnect st)"

definition headerComment :: "env \<Rightarrow> string" where
  "headerComment env =
     ''// autogenerated by '' @ info_name env @ '' v'' @ info_version env @ '' on '' @ now env"

definition writeHead_functions :: "env \<Rightarrow> options \<Rightarrow> (state \<Rightarrow> jsError option \<times> state) list" where
  "writeHead_functions env opts =
     (if truthy (prepend opts) then [js_write env opts [or_default (prepend opts) [] @ eol_of opts]]
      else []) @
     (if \<not> omitComments opts then [js_write env opts [headerComment env @ eol_of opts]] else []) @
     (if modularize opts then
        [js_write env opts
           [''module.exports = function(sql) {'', indent_of opts @ ''var exports = {};'', eol_of opts]]
      else [js_write env opts [''var sql = require('sql');'', eol_of opts]])"

definition writeHead :: "env \<Rightarrow> options \<Rightarrow> state \<Rightarrow> jsError option \<times> state" where
  "writeHead env opts st = series (writeHead_functions env opts) st"

definition fetchTables :: "env \<Rightarrow> options \<Rightarrow> state \<Rightarrow> jsError option \<times> state" where
  "fetchTables env opts st =
     (case db_tables env of
        Inl err \<Rightarrow> (Some err, log_event DbTables st)
      | Inr rows \<Rightarrow> (None, (log_event DbTables st)\<lparr>tableNames := filterTables opts rows\<rparr>))"

definition getListOfColumns :: "env \<Rightarrow> string \<Rightarrow> jsError + jsobject list" where
  "getListOfColumns env tableName =
     (case db_columns env tableName of
        Inl err \<Rightarrow> Inl err
      | Inr results \<Rightarrow> Inr (map normalizeColumn results))"

text \<open>
  \<^verbatim>\<open>name.replace(/_(.)/g, ...)\<close>: the dot matches any character but a line terminator;
  the character after the underscore is put in upper case (identifiers are ASCII).
\<close>

fun camelize :: "string \<Rightarrow> string" where
  "camelize (c # d # cs) =
     (if c = CHR ''_'' \<and> d \<noteq> CHR 0x0A \<and> d \<noteq> CHR 0x0D then toUpperChar d # camelize cs
      else c # camelize (d # cs))"
| "camelize cs = cs"

definition tryCamelize :: "options \<Rightarrow> string \<Rightarrow> string" where
  "tryCamelize opts name = (if \<not> camelize_opt opts then name else camelize name)"

text \<open>\<^verbatim>\<open>options.schema || options.database\<close>, as a string.\<close>

definition schema_or_database :: "options \<Rightarrow> string" where
  "schema_or_database opts =
     or_default (schema opts) (case database opts of None \<Rightarrow> ''undefined'' | Some d \<Rightarrow> d)"

text \<open>
  The string of one column (lines 468 to 480), with \<open>ind\<close> the indentation of the table.
  The properties of the row are concatenated as strings (\<^verbatim>\<open>column.name\<close> is a string in
  every row the database returns).
\<close>

definition columnString :: "options \<Rightarrow> string \<Rightarrow> jsobject \<Rightarrow> string" where
  "columnString opts ind column =
     ind @ indent_of opts @ indent_of opts @ ''{ '' @
     ''name: '' @ sq @ js_toString (get column ''name'') @ sq @
     (if camelize_opt opts
      then '', property: '' @ sq @ camelize (js_toString (get column ''name'')) @ sq else []) @
     (if includeMeta opts
      then '', type: '' @ sq @ js_toString (get column ''type'') @ sq @
           '', nullable: '' @ js_toString (get column ''nullable'') @
           '', charLength: '' @ js_toString (get column ''charLength'')
      else []) @
     '' }''"

definition columnStat :: "jsobject \<Rightarrow> jsobject" where
  "columnStat column =
     [(''name'', get column ''name''),
      (''property'', String (camelize (js_toString (get column ''name'')))),
      (''type'', get column ''type''),
      (''nullable'', get column ''nullable''),
      (''charLength'', get column ''charLength'')]"

text \<open>The arguments \<^verbatim>\<open>writeTable\<close> collects for \<^verbatim>\<open>write\<close> (but the continuation).\<close>

definition table_indent :: "options \<Rightarrow> string" where
  "table_indent opts = (if modularize opts then indent_of opts else [])"

definition writeTable_args :: "options \<Rightarrow> string \<Rightarrow> jsobject list \<Rightarrow> string list" where
  "writeTable_args opts tableName columnData =
     (if \<not> omitComments opts then
        [table_indent opts @ ''/**'',
         table_indent opts @ '' * SQL definition for '' @ schema_or_database opts @ ''.'' @ tableName,
         table_indent opts @ '' */'']
      else []) @
     [table_indent opts @ ''exports.'' @ tryCamelize opts tableName @ '' = sql.define({'',
      table_indent opts @ indent_of opts @ ''name: '' @ sq @ tableName @ sq @ '',''] @
     (if includeSchema opts then
        [table_indent opts @ indent_of opts @ ''schema: '' @ sq @ schema_or_database opts @ sq @ '','']
      else []) @
     [table_indent opts @ indent_of opts @ ''columns: ['',
      join ('','' @ eol_of opts) (map (columnString opts (table_indent opts)) columnData),
      table_indent opts @ indent_of opts @ '']'',
      table_indent opts @ ''});'',
      eol_of opts]"

definition set_table :: "string \<Rightarrow> jsobject list \<Rightarrow> state \<Rightarrow> state" where
  "set_table tableName cols st = st\<lparr>stats := (stats st)\<lparr>tables := put (tables (stats st)) tableName cols\<rparr>\<rparr>"

definition writeTable :: "env \<Rightarrow> options \<Rightarrow> string \<Rightarrow> state \<Rightarrow> jsError option \<times> state" where
  "writeTable env opts tableName st =
     (case getListOfColumns env tableName of
        Inl err \<Rightarrow> (Some err, log_event (DbColumns tableName) (set_table tableName [] st))
      | Inr columnData \<Rightarrow>
          js_write env opts (writeTable_args opts tableName columnData)
            (set_table tableName (map columnStat columnData)
               (log_event (DbColumns tableName) st)))"

definition processTables :: "env \<Rightarrow> options \<Rightarrow> state \<Rightarrow> jsError option \<times> state" where
  "processTables env opts st = eachSeries (tableNames st) (writeTable env opts) st"

definition tail :: "env \<Rightarrow> options \<Rightarrow> jsError option \<Rightarrow> state \<Rightarrow> jsError option \<times> state" where
  "tail env opts err st =
     (case err of
        Some e \<Rightarrow> (Some e, st)
      | None \<Rightarrow>
          if truthy (append_opt opts) then js_write env opts [or_default (append_opt opts) []] st
          else (None, st))"

definition writeTail :: "env \<Rightarrow> options \<Rightarrow> state \<Rightarrow> jsError option \<times> state" where
  "writeTail env opts st =
     (if modularize opts then
        (case js_write env opts [indent_of opts @ ''return exports;'', ''};''] st of
           (err, st') \<Rightarrow> tail env opts err st')
      else tail env opts None st)"


section \<open>The pipeline runner\<close>

definition run_step :: "step \<Rightarrow> (state \<Rightarrow> jsError option \<times> state) \<Rightarrow> state \<Rightarrow> jsError option \<times> state" where
  "run_step s f st = (case f (log_event (Run s) st) of (err, st') \<Rightarrow> (err, log_event (Next s err) st'))"

definition pipeline :: "env \<Rightarrow> options \<Rightarrow> (state \<Rightarrow> jsError option \<times> state) list" where
  "pipeline env opts =
     [run_step OpenFile (openFile env opts),
      run_step Connect (connect env),
      run_step WriteHead (writeHead env opts),
      run_step FetchTables (fetchTables env opts),
      run_step ProcessTables (processTables env opts),
      run_step WriteTail (writeTail env opts)]"

text \<open>
  The final callback of the series (lines 543 to 567): \<^verbatim>\<open>fs.close\<close> when a file other
  than the standard output is open (an error of \<^verbatim>\<open>fs.close\<close> is only logged), then the
  caller's callback with the error of the series and the \<^verbatim>\<open>stats\<close> object.
\<close>

definition finish :: "env \<Rightarrow> jsError option \<times> state \<Rightarrow> state" where
  "finish env r =
     (case r of
        (appError, st) \<Rightarrow>
          (case fd st of
             None \<Rightarrow> log_event (Callback appError (Some (stats st))) st
           | Some d \<Rightarrow>
               if d \<noteq> 0 \<and> d \<noteq> 1
               then log_event (Callback appError (Some (stats st))) (log_event (FsClose d) st)
               else log_event (Callback appError (Some (stats st))) st))"

definition run_pipeline :: "env \<Rightarrow> options \<Rightarrow> state" where
  "run_pipeline env opts = finish env (series (pipeline env opts) initial_state)"


section \<open>The generator\<close>

text \<open>
  The \<^verbatim>\<open>switch\<close> on the dialect (lines 253 to 358) as far as it changes the options or
  ends the call: the error is the one \<^verbatim>\<open>JSON.parse\<close> throws on the mssql DSN.
\<close>

definition dialectOptions :: "env \<Rightarrow> options \<Rightarrow> string \<Rightarrow> jsError + options" where
  "dialectOptions env opts d =
     (if d = ''mysql'' then
        Inr (opts\<lparr>dialect := Some d, database := or_else (database opts) (client_database env)\<rparr>)
      else if d = ''pg'' then
        Inr (opts\<lparr>dialect := Some d,
                  database := or_else (database opts) (client_database env),
                  schema := Some (or_default (schema opts) ''public'')\<rparr>)
      else
        (case JSON_parse (json_other env) (mssql_json (or_default (dsn opts) [])) of
           Inl e \<Rightarrow> Inl e
         | Inr mssqlDsn \<Rightarrow>
             Inr (opts\<lparr>dialect := Some d,
                       database := or_value (database opts) (get mssqlDsn ''database'')\<rparr>)))"

text \<open>
  The outcome of a call: the events in order, or the exception that \<^verbatim>\<open>require\<close> throws
  for a module that is not one of the three database drivers.
\<close>

datatype outcome = Events "event list" | Throws

definition generate :: "env \<Rightarrow> options \<Rightarrow> outcome" where
  "generate env options0 =
     (case resolveDialect options0 of
        Inl e \<Rightarrow> Events [Callback (Some e) None]
      | Inr d \<Rightarrow>
          if d \<notin> set [''mysql'', ''pg'', ''mssql''] then Throws
          else
            (case dialectOptions env options0 d of
               Inl e \<Rightarrow> Events [Callback (Some e) None]
             | Inr opts \<Rightarrow>
                 if \<not> truthy (database opts) then
                   Events [Callback
                     (Some (Error ''options.database is required if it is not part of the DSN'')) None]
                 else Events (trace (run_pipeline env opts))))"


text \<open>The options object with no property set.\<close>

definition default_options :: options where
  "default_options =
     \<lparr>dsn = None, dialect = None, database = None, schema = None, indent = None,
      outputFile = OutUndefined, camelize_opt = False, eol = None, encoding = None,
      prepend = None,
      append_opt = None, omitComments = False, includeSchema = False, modularize = False,
      includeMeta = False, includeRegex = None, excludeRegex = None\<rparr>"



section \<open>Projections of a run\<close>

text \<open>The order of the steps in the array handed to \<^verbatim>\<open>async.series\<close> (lines 536 to 543).\<close>

definition step_order :: "step list" where
  "step_order = [OpenFile, Connect, WriteHead, FetchTables, ProcessTables, WriteTail]"

fun close_of :: "event \<Rightarrow> nat list" where
  "close_of (FsClose d) = [d]"
| "close_of _ = []"

definition closes :: "event list \<Rightarrow> nat list" where
  "closes tr = concat (map close_of tr)"

text \<open>
  The argument lists of the calls of \<^verbatim>\<open>write\<close> in a run that meets no error: those of
  \<^verbatim>\<open>writeHead\<close>, one per table of \<^verbatim>\<open>processTables\<close>, those of \<^verbatim>\<open>writeTail\<close>.
\<close>

definition head_args :: "env \<Rightarrow> options \<Rightarrow> string list list" where
  "head_args env opts =
     (if truthy (prepend opts) then [[or_default (prepend opts) [] @ eol_of opts]] else []) @
     (if \<not> omitComments opts then [[headerComment env @ eol_of opts]] else []) @
     [if modularize opts
      then [''module.exports = function(sql) {'', indent_of opts @ ''var exports = {};'', eol_of opts]
      else [''var sql = require('sql');'', eol_of opts]]"

definition tables_of :: "env \<Rightarrow> options \<Rightarrow> string list" where
  "tables_of env opts = (case db_tables env of Inl err \<Rightarrow> [] | Inr rows \<Rightarrow> filterTables opts rows)"

definition columns_of :: "env \<Rightarrow> string \<Rightarrow> jsobject list" where
  "columns_of env tableName =
     (case getListOfColumns env tableName of Inl err \<Rightarrow> [] | Inr columnData \<Rightarrow> columnData)"

definition table_args :: "env \<Rightarrow> options \<Rightarrow> string \<Rightarrow> string list" where
  "table_args env opts tableName = writeTable_args opts tableName (columns_of env tableName)"

definition tail_args :: "options \<Rightarrow> string list list" where
  "tail_args opts =
     (if modularize opts then [[indent_of opts @ ''return exports;'', ''};'']] else []) @
     (if truthy (append_opt opts) then [[or_default (append_opt opts) []]] else [])"

definition all_args :: "env \<Rightarrow> options \<Rightarrow> string list list" where
  "all_args env opts =
     head_args env opts @ map (table_args env opts) (tables_of env opts) @ tail_args opts"

text \<open>
  Two properties of a step \<open>f\<close>: the events it adds to the trace are calls of \<^verbatim>\<open>write\<close> and
  of the collaborators only; and, started with table names that satisfy \<open>P\<close>, the texts it
  writes are a prefix of \<open>X\<close>, all of \<open>X\<close> when it ends without error, and then the table
  names satisfy \<open>Q\<close>.
\<close>

definition emits :: "(state \<Rightarrow> jsError option \<times> state) \<Rightarrow> bool" where
  "emits f = (\<forall>st e st'. f st = (e, st') \<longrightarrow> (\<exists>evs. trace st' = trace st @ evs \<and> list_all is_io evs))"

definition produces ::
  "(string list \<Rightarrow> bool) \<Rightarrow> (state \<Rightarrow> jsError option \<times> state) \<Rightarrow> string list \<Rightarrow>
   (string list \<Rightarrow> bool) \<Rightarrow> bool" where
  "produces P f X Q =
     (\<forall>st e st'. P (tableNames st) \<longrightarrow> f st = (e, st') \<longrightarrow>
        (\<exists>k \<le> length X. writes (trace st') = writes (trace st) @ take k X \<and>
           (e = None \<longrightarrow> k = length X \<and> Q (tableNames st'))))"

text \<open>
  An environment in which nothing fails and the database has no table. Its \<^verbatim>\<open>Buffer\<close> is
  Node's on ASCII text for the encodings \<^verbatim>\<open>utf8\<close> and \<^verbatim>\<open>ucs2\<close>: \<^verbatim>\<open>ucs2\<close> stores every
  character in two bytes, the low one first, the others store it in one byte; decoding
  ASCII bytes as UTF-8 gives one character per byte, a zero byte included.
\<close>

definition ucs2_ascii :: "string \<Rightarrow> string" where
  "ucs2_ascii string = concat (map (\<lambda>c. [c, CHR 0x00]) string)"

definition witness_env :: env where
  "witness_env =
     \<lparr>client_database = Some ''shop'', json_other = (\<lambda>s. Inl (Error ''SyntaxError'')),
      info_name = ''node-sql-generate'', info_version = ''0.3.0'', now = ''today'',
      fs_open = (\<lambda>p. Inr 3), fs_write = (\<lambda>d n t. (None, length t)), fs_close = (\<lambda>d. None),
      Buffer_new = (\<lambda>encoding string. if encoding = ''ucs2'' then ucs2_ascii string else string),
      Buffer_toString = (\<lambda>bytes. bytes),
      db_connect = None, db_tables = Inr [], db_columns = (\<lambda>t. Inr [])\<rparr>"

text \<open>The files opened in a run.\<close>

fun open_of :: "event \<Rightarrow> string list" where
  "open_of (FsOpen p) = [p]"
| "open_of _ = []"

definition opens :: "event list \<Rightarrow> string list" where
  "opens tr = concat (map open_of tr)"

text \<open>
  Two invariants of the state of a run, each kept by every step: \<^verbatim>\<open>stats.bytesWritten\<close> is
  \<^verbatim>\<open>undefined\<close> as long as nothing is written and \<^verbatim>\<open>NaN\<close> afterwards; with no file
  open, \<^verbatim>\<open>stats.buffer\<close> holds every text written, each encoded with \<^verbatim>\<open>options.encoding\<close>
  and decoded again by \<^verbatim>\<open>toString()\<close>.
\<close>

definition preserves :: "(state \<Rightarrow> bool) \<Rightarrow> (state \<Rightarrow> jsError option \<times> state) \<Rightarrow> bool" where
  "preserves I f = (\<forall>st e st'. I st \<longrightarrow> f st = (e, st') \<longrightarrow> I st')"

definition bytes_inv :: "state \<Rightarrow> bool" where
  "bytes_inv st =
     (bytesWritten (stats st) = (if writes (trace st) = [] then Undefined else Number NaN))"

definition decoded :: "env \<Rightarrow> options \<Rightarrow> string \<Rightarrow> string" where
  "decoded env opts string = Buffer_toString env (Buffer_new env (encoding_of opts) string)"

definition memory_inv :: "env \<Rightarrow> options \<Rightarrow> state \<Rightarrow> bool" where
  "memory_inv env opts st =
     (fd st = None \<and> opens (trace st) = [] \<and> fs_writes (trace st) = [] \<and>
      buffer (stats st) = concat (map (decoded env opts) (writes (trace st))))"

text \<open>
  The texts of a run, as the specification words them: the prepended text, the header
  comment, the opening of the module, for every table its comment block and its
  definition line by line, the closing of the module, the appended text.
\<close>

definition prepend_texts :: "options \<Rightarrow> string list" where
  "prepend_texts opts =
     (case prepend opts of
        None \<Rightarrow> []
      | Some text \<Rightarrow> if text = [] then [] else [text @ eol_of opts @ eol_of opts])"

definition append_texts :: "options \<Rightarrow> string list" where
  "append_texts opts =
     (case append_opt opts of
        None \<Rightarrow> []
      | Some text \<Rightarrow> if text = [] then [] else [text @ eol_of opts])"

definition header_texts :: "env \<Rightarrow> options \<Rightarrow> string list" where
  "header_texts env opts =
     (if omitComments opts then [] else [headerComment env @ eol_of opts @ eol_of opts])"

definition wrapper_head :: "options \<Rightarrow> string" where
  "wrapper_head opts =
     (if modularize opts then
        ''module.exports = function(sql) {'' @ eol_of opts @
        indent_of opts @ ''var exports = {};'' @ eol_of opts @ eol_of opts @ eol_of opts
      else ''var sql = require('sql');'' @ eol_of opts @ eol_of opts @ eol_of opts)"

definition wrapper_tail :: "options \<Rightarrow> string list" where
  "wrapper_tail opts =
     (if modularize opts
      then [indent_of opts @ ''return exports;'' @ eol_of opts @ ''};'' @ eol_of opts]
      else [])"

definition comment_lines :: "options \<Rightarrow> string \<Rightarrow> string list" where
  "comment_lines opts tableName =
     [''/**'', '' * SQL definition for '' @ schema_or_database opts @ ''.'' @ tableName, '' */'']"

fun commas :: "string list \<Rightarrow> string list" where
  "commas (x # y # ys) = (x @ '','') # commas (y # ys)"
| "commas xs = xs"

definition definition_lines :: "options \<Rightarrow> string \<Rightarrow> jsobject list \<Rightarrow> string list" where
  "definition_lines opts tableName columnData =
     [''exports.'' @ tryCamelize opts tableName @ '' = sql.define({'',
      indent_of opts @ ''name: '' @ sq @ tableName @ sq @ '',''] @
     (if includeSchema opts
      then [indent_of opts @ ''schema: '' @ sq @ schema_or_database opts @ sq @ '','']
      else []) @
     [indent_of opts @ ''columns: [''] @
     commas (map (columnString opts []) columnData) @
     [indent_of opts @ '']'', ''});'']"

definition lines_text :: "options \<Rightarrow> string \<Rightarrow> string list \<Rightarrow> string" where
  "lines_text opts ind ls = concat (map (\<lambda>l. ind @ l @ eol_of opts) ls) @ eol_of opts @ eol_of opts"

definition table_lines :: "env \<Rightarrow> options \<Rightarrow> string \<Rightarrow> string list" where
  "table_lines env opts t =
     (if omitComments opts then [] else comment_lines opts t) @
     definition_lines opts t (columns_of env t)"

definition body_texts :: "env \<Rightarrow> options \<Rightarrow> string list" where
  "body_texts env opts =
     header_texts env opts @ [wrapper_head opts] @
     map (\<lambda>t. lines_text opts (table_indent opts) (table_lines env opts t)) (tables_of env opts) @
     wrapper_tail opts"





text \<open>
  A database with one table of two columns; options that ask for the encoding \<^verbatim>\<open>ucs2\<close>
  with no output file; options for the database with one table.
\<close>

definition shop_env :: env where
  "shop_env =
     witness_env\<lparr>db_tables := Inr [''users''],
                 db_columns := (\<lambda>t. Inr
                   [[(''name'', String ''id''), (''nullable'', String ''NO''),
                     (''defaultValue'', Null), (''charLength'', Null), (''type'', String ''integer'')],
                    [(''name'', String ''full_name''), (''nullable'', String ''YES''),
                     (''defaultValue'', Null), (''charLength'', Number (Num 255)),
                     (''type'', String ''character varying'')]])\<rparr>"

definition ucs2_options :: options where
  "ucs2_options =
     default_options\<lparr>dsn := Some ''mysql://root@localhost/shop'', dialect := Some ''mysql'',
                     database := Some ''shop'', encoding := Some ''ucs2'', omitComments := True\<rparr>"

definition shop_options :: options where
  "shop_options =
     default_options\<lparr>dsn := Some ''mysql://root@localhost/shop'', dialect := Some ''mysql'',
                     database := Some ''shop'', indent := Some ''  '',
                     prepend := Some ''// begin'', append_opt := Some ''// end''\<rparr>"

text \<open>The defining equations that evaluate a run and its texts.\<close>

lemmas run_defs = pipeline_def run_step_def openFile_def connect_def writeHead_def
      writeHead_functions_def fetchTables_def processTables_def eachSeries_def writeTail_def
      tail_def js_write_def write_string_def eol_of_def indent_of_def encoding_of_def or_default_def
      truthy_def
      fd_open_def add_bytes_def log_event_def filterTables_def tableRow_def
      witness_env_def default_options_def initial_state_def initial_stats_def
      Let_def writeTable_def getListOfColumns_def set_table_def writeTable_args_def
      headerComment_def table_indent_def

lemmas text_defs = prepend_texts_def append_texts_def header_texts_def wrapper_head_def
  wrapper_tail_def lines_text_def comment_lines_def definition_lines_def columns_of_def
  tables_of_def columnString_def tryCamelize_def schema_or_database_def sq_def
  normalizeColumn_def normalizeType_def get_def parseInt_def parseInt_string_def
  parse_radix_def parse_digits_def isWhiteSpace_def is_digit_def digit_val_def or_null_def
  table_lines_def body_texts_def


section \<open>The table-name filter\<close>

lemma tableRow_keeps: "tableRow opts name = (if spec_keeps opts name then Some name else None)"
  by (auto simp: tableRow_def spec_keeps_def list_ex_iff list_all_iff split: option.splits)

lemma map_filter_keep:
  "List.map_filter (\<lambda>x. if P x then Some x else None) xs = filter P xs"
  by (induction xs) (simp_all add: List.map_filter_simps)

text \<open>
  Claim C4. For every fetched table row, \<^verbatim>\<open>getListOfTables\<close> keeps the name if and only if
  (when \<^verbatim>\<open>includeRegex\<close> is given) at least one include pattern matches it and (when
  \<^verbatim>\<open>excludeRegex\<close> is given) no exclude pattern matches it; when neither option is given
  every name is kept.
\<close>

theorem getListOfTables_filter:
  "filterTables opts rows = filter (spec_keeps opts) rows \<and>
   (includeRegex opts = None \<and> excludeRegex opts = None \<longrightarrow> filterTables opts rows = rows)"
proof -
  have eq: "filterTables opts rows = filter (spec_keeps opts) rows"
    unfolding filterTables_def by (simp add: tableRow_keeps [abs_def] map_filter_keep)
  moreover have "filterTables opts rows = rows"
    if "includeRegex opts = None \<and> excludeRegex opts = None"
    using that by (simp add: eq spec_keeps_def)
  ultimately show ?thesis by blast
qed

theorem getListOfTables_filter_witness:
  "filterTables
     (default_options\<lparr>includeRegex := Some [prefix ''user'', prefix ''order''],
                      excludeRegex := Some [\<lambda>name. name = ''user_log'']\<rparr>)
     [''orders'', ''products'', ''user_log'', ''users''] = [''orders'', ''users''] \<and>
   filterTables default_options [''orders'', ''products''] = [''orders'', ''products'']"
  using getListOfTables_filter [of "default_options\<lparr>includeRegex := Some [prefix ''user'', prefix ''order''],
                      excludeRegex := Some [\<lambda>name. name = ''user_log'']\<rparr>" "[''orders'', ''products'', ''user_log'', ''users'']"]
    getListOfTables_filter [of default_options "[''orders'', ''products'']"]
  by (simp add: spec_keeps_def default_options_def)


section \<open>Column rows\<close>

lemma get_put: "get (put obj k v) k' = (if k' = k then v else get obj k')"
  by (induction obj) (auto simp: get_def)

lemma parseInt_undefined: "parseInt Undefined = NaN"
  by (simp add: parseInt_def parseInt_string_def parse_radix_def parse_digits_def
      isWhiteSpace_def is_digit_def digit_val_def)

lemma get_normalizeType: "k \<noteq> ''type'' \<Longrightarrow> get (normalizeType col) k = get col k"
  by (auto simp: normalizeType_def get_put)

lemma get_absent: "k \<notin> set (map fst col) \<Longrightarrow> get col k = Undefined"
  by (induction col) (auto simp: get_def)

lemma normalizeColumn_type:
  "get (normalizeColumn col) ''type'' =
     (if get col ''type'' = String ''character varying'' then String ''varchar''
      else if get col ''type'' = String ''character'' then String ''char''
      else if get col ''type'' = String ''integer'' then String ''int''
      else get col ''type'')"
  by (simp add: normalizeColumn_def Let_def get_put normalizeType_def)

lemma normalizeColumn_nullable:
  "get (normalizeColumn col) ''nullable'' = Bool (get col ''nullable'' = String ''YES'')"
  by (simp add: normalizeColumn_def Let_def get_put get_normalizeType)

text \<open>
  Claim C1. The type and the \<^verbatim>\<open>nullable\<close> field are normalised as the claim says
  (\<open>normalizeColumn_type\<close>, \<open>normalizeColumn_nullable\<close>). The \<^verbatim>\<open>maxLength\<close> field is not: the
  callback parses \<^verbatim>\<open>col.maxLength\<close>, a property that no fetched row has (the character
  maximum length is selected as \<^verbatim>\<open>charLength\<close>), so \<^verbatim>\<open>maxLength\<close> is \<^verbatim>\<open>null\<close> for every fetched
  row, whatever its character maximum length.
\<close>

theorem normalizeColumn_maxLength:
  assumes "fetched_column col"
  shows "get (normalizeColumn col) ''maxLength'' = Null"
proof -
  from assms have "''maxLength'' \<notin> set (map fst col)"
    by (simp add: fetched_column_def)
  then have "get col ''maxLength'' = Undefined"
    by (rule get_absent)
  then show ?thesis
    by (simp add: normalizeColumn_def Let_def get_put get_normalizeType parseInt_undefined or_null_def)
qed

theorem normalizeColumn_maxLength_witness:
  "fetched_column
     [(''name'', String ''title''), (''nullable'', String ''YES''), (''defaultValue'', Null),
      (''charLength'', Number (Num 255)), (''type'', String ''character varying'')] \<and>
   get (normalizeColumn
     [(''name'', String ''title''), (''nullable'', String ''YES''), (''defaultValue'', Null),
      (''charLength'', Number (Num 255)), (''type'', String ''character varying'')]) ''maxLength'' = Null \<and>
   get (normalizeColumn
     [(''name'', String ''title''), (''nullable'', String ''YES''), (''defaultValue'', Null),
      (''charLength'', Number (Num 255)), (''type'', String ''character varying'')]) ''charLength'' = Number (Num 255)"
  using normalizeColumn_maxLength [of "[(''name'', String ''title''), (''nullable'', String ''YES''), (''defaultValue'', Null),
      (''charLength'', Number (Num 255)), (''type'', String ''character varying'')]"]
  by (simp add: fetched_column_def normalizeColumn_def normalizeType_def get_def)


section \<open>Resolving the dialect\<close>

lemma toLowerChar_not_upper: "toLowerChar c \<notin> set ''ABCDEFGHIJKLMNOPQRSTUVWXYZ''"
  by (auto simp: toLowerChar_def split: option.splits if_splits)

lemma toLowerCase_lower:
  "list_all (\<lambda>c. c \<notin> set ''ABCDEFGHIJKLMNOPQRSTUVWXYZ'') (toLowerCase s)"
proof -
  have "c \<notin> set ''ABCDEFGHIJKLMNOPQRSTUVWXYZ''" if "c \<in> set (toLowerCase s)" for c
  proof -
    from that obtain x where "c = toLowerChar x"
      by (auto simp: toLowerCase_def)
    then show ?thesis
      by (simp only: toLowerChar_not_upper not_False_eq_True)
  qed
  then show ?thesis
    unfolding list_all_iff by blast
qed

lemma supported_lower:
  "supported (toLowerCase s) \<Longrightarrow>
   toLowerCase s \<in> {''mysql'', ''pg'', ''mssql'', ''constructor'', ''__proto__''}"
  using toLowerCase_lower [of s]
  by (auto simp: supported_def supportedDialects_def Object_prototype_def split: if_splits)

lemma resolveDialect_result:
  "resolveDialect opts = Inr d \<Longrightarrow> d \<in> {''mysql'', ''pg'', ''mssql'', ''constructor'', ''__proto__''}"
  using supported_lower
  by (auto simp: resolveDialect_def Let_def split: if_splits sum.splits)

lemma resolveDialect_no_dsn:
  "\<not> truthy (dsn opts) \<Longrightarrow> resolveDialect opts = Inl (Error ''options.dsn is required'')"
  by (simp add: resolveDialect_def)

lemma prefix_map_take: "prefix p (map f s) \<Longrightarrow> length p = n \<Longrightarrow> map f (take n s) = p"
  by (auto simp: prefix_def take_map [symmetric])

lemma dsn_match_lower:
  "dsn_match s = Some m \<Longrightarrow> toLowerCase m \<in> {''mysql'', ''postgres'', ''mssql''}"
proof -
  assume m: "dsn_match s = Some m"
  have a: "prefix ''mysql'' (map toLowerChar s) \<Longrightarrow> map toLowerChar (take 5 s) = ''mysql''"
    using prefix_map_take [of "''mysql''" toLowerChar s 5] by simp
  have b: "prefix ''postgres'' (map toLowerChar s) \<Longrightarrow> map toLowerChar (take 8 s) = ''postgres''"
    using prefix_map_take [of "''postgres''" toLowerChar s 8] by simp
  have c: "prefix ''mssql'' (map toLowerChar s) \<Longrightarrow> map toLowerChar (take 5 s) = ''mssql''"
    using prefix_map_take [of "''mssql''" toLowerChar s 5] by simp
  from m show ?thesis
    unfolding dsn_match_def toLowerCase_def Let_def
    using a b c by (auto split: if_splits)
qed

lemma resolveDialect_inferred:
  assumes "dsn opts = Some s" and "s \<noteq> []" and "\<not> truthy (dialect opts)"
  shows "resolveDialect opts =
           (case dsn_match s of
              None \<Rightarrow> Inl (Error ''options.dialect is required'')
            | Some m \<Rightarrow> Inr (if toLowerCase m = ''postgres'' then ''pg'' else toLowerCase m))"
proof (cases "dsn_match s")
  case None
  with assms show ?thesis
    by (simp add: resolveDialect_def inferDialect_def truthy_def or_default_def)
next
  case (Some m)
  from dsn_match_lower [OF Some] have "toLowerCase m \<in> {''mysql'', ''postgres'', ''mssql''}" .
  with assms Some show ?thesis
    by (auto simp: resolveDialect_def inferDialect_def truthy_def or_default_def Let_def
        toLowerCase_def toLowerChar_def supported_def supportedDialects_def)
qed

text \<open>
  Claim C5. A missing DSN yields an error (\<open>resolveDialect_no_dsn\<close>), and a dialect that is
  not given is inferred from the DSN prefix or yields an error (\<open>resolveDialect_inferred\<close>).
  An explicit dialect, however, passes the check \<^verbatim>\<open>supportedDialects[options.dialect]\<close>
  whenever the object has or inherits a truthy property of that name: for the dialect
  \<^verbatim>\<open>constructor\<close> the callback receives no error, and the call goes on to
  \<^verbatim>\<open>require('constructor')\<close>.
\<close>

theorem resolveDialect_constructor:
  "resolveDialect
     (default_options\<lparr>dsn := Some ''mysql://root@localhost/shop'',
                      dialect := Some ''constructor''\<rparr>) = Inr ''constructor'' \<and>
   generate env
     (default_options\<lparr>dsn := Some ''mysql://root@localhost/shop'',
                      dialect := Some ''constructor''\<rparr>) = Throws"
proof -
  have "resolveDialect
     (default_options\<lparr>dsn := Some ''mysql://root@localhost/shop'',
                      dialect := Some ''constructor''\<rparr>) = Inr ''constructor''"
    by (simp add: resolveDialect_def inferDialect_def default_options_def truthy_def
        or_default_def toLowerCase_def toLowerChar_def supported_def supportedDialects_def
        Object_prototype_def)
  then show ?thesis
    by (simp add: generate_def)
qed


section \<open>The order of the pipeline\<close>

lemma writes_append [simp]: "writes (xs @ ys) = writes xs @ writes ys"
  by (simp add: writes_def)

lemma runs_append [simp]: "runs (xs @ ys) = runs xs @ runs ys"
  by (simp add: runs_def)

lemma nexts_append [simp]: "nexts (xs @ ys) = nexts xs @ nexts ys"
  by (simp add: nexts_def)

lemma callbacks_append [simp]: "callbacks (xs @ ys) = callbacks xs @ callbacks ys"
  by (simp add: callbacks_def)

lemma fs_writes_append [simp]: "fs_writes (xs @ ys) = fs_writes xs @ fs_writes ys"
  by (simp add: fs_writes_def)

lemma projections_Nil [simp]:
  "writes [] = []" "runs [] = []" "nexts [] = []" "callbacks [] = []" "fs_writes [] = []"
  by (simp_all add: writes_def runs_def nexts_def callbacks_def fs_writes_def)

lemma projections_Cons [simp]:
  "writes (x # xs) = write_text x @ writes xs"
  "runs (x # xs) = run_step_of x @ runs xs"
  "nexts (x # xs) = next_of x @ nexts xs"
  "callbacks (x # xs) = callback_of x @ callbacks xs"
  "fs_writes (x # xs) = fs_write_of x @ fs_writes xs"
  by (simp_all add: writes_def runs_def nexts_def callbacks_def fs_writes_def)

lemma io_quiet:
  "list_all is_io evs \<Longrightarrow> runs evs = [] \<and> nexts evs = [] \<and> callbacks evs = []"
proof (induction evs)
  case Nil
  show ?case by simp
next
  case (Cons x evs)
  then show ?case by (cases x) simp_all
qed

lemma emitsI:
  "(\<And>st e st'. f st = (e, st') \<Longrightarrow> \<exists>evs. trace st' = trace st @ evs \<and> list_all is_io evs) \<Longrightarrow> emits f"
  by (simp add: emits_def)

lemma emitsD:
  "emits f \<Longrightarrow> f st = (e, st') \<Longrightarrow> \<exists>evs. trace st' = trace st @ evs \<and> list_all is_io evs"
  by (simp add: emits_def)

lemma emits_series:
  assumes "\<forall>f \<in> set fs. emits f"
  shows "emits (series fs)"
proof (rule emitsI)
  fix st e st'
  assume "series fs st = (e, st')"
  with assms show "\<exists>evs. trace st' = trace st @ evs \<and> list_all is_io evs"
  proof (induction fs arbitrary: st)
    case Nil
    then show ?case by simp
  next
    case (Cons f fs)
    obtain e1 st1 where f: "f st = (e1, st1)" by (cases "f st")
    from Cons.prems have "emits f" by simp
    from emitsD [OF this f] obtain evs1 where
      evs1: "trace st1 = trace st @ evs1" "list_all is_io evs1" by blast
    show ?case
    proof (cases e1)
      case None
      with Cons.prems f have "series fs st1 = (e, st')" by simp
      with Cons.IH Cons.prems obtain evs2 where
        "trace st' = trace st1 @ evs2" "list_all is_io evs2" by auto
      with evs1 show ?thesis by auto
    next
      case (Some a)
      with Cons.prems f have "st' = st1" by simp
      with evs1 show ?thesis by auto
    qed
  qed
qed

lemma emits_js_write: "emits (js_write env opts args)"
  by (rule emitsI)
    (auto simp: js_write_def Let_def log_event_def split: option.splits prod.splits if_splits)

lemma emits_openFile: "emits (openFile env opts)"
  by (rule emitsI)
    (auto simp: openFile_def log_event_def split: outputFile_value.splits sum.splits if_splits)

lemma emits_connect: "emits (connect env)"
  by (rule emitsI) (auto simp: connect_def log_event_def)

lemma emits_writeHead: "emits (writeHead env opts)"
proof -
  have "\<forall>f \<in> set (writeHead_functions env opts). emits f"
    by (auto simp: writeHead_functions_def emits_js_write)
  then have "emits (series (writeHead_functions env opts))"
    by (rule emits_series)
  then show ?thesis
    by (simp add: emits_def writeHead_def)
qed

lemma emits_fetchTables: "emits (fetchTables env opts)"
  by (rule emitsI) (auto simp: fetchTables_def log_event_def split: sum.splits)

lemma emits_writeTable: "emits (writeTable env opts t)"
proof (rule emitsI)
  fix st e st'
  assume a: "writeTable env opts t st = (e, st')"
  show "\<exists>evs. trace st' = trace st @ evs \<and> list_all is_io evs"
  proof (cases "getListOfColumns env t")
    case (Inl err)
    with a show ?thesis
      by (auto simp: writeTable_def log_event_def set_table_def)
  next
    case (Inr cols)
    with a have "js_write env opts (writeTable_args opts t cols)
        (set_table t (map columnStat cols) (log_event (DbColumns t) st)) = (e, st')"
      by (simp add: writeTable_def)
    from emitsD [OF emits_js_write this] show ?thesis
      by (auto simp: set_table_def log_event_def)
  qed
qed

lemma emits_processTables: "emits (processTables env opts)"
proof (rule emitsI)
  fix st e st'
  assume a: "processTables env opts st = (e, st')"
  have "emits (series (map (writeTable env opts) (tableNames st)))"
    by (rule emits_series) (simp add: emits_writeTable)
  with a show "\<exists>evs. trace st' = trace st @ evs \<and> list_all is_io evs"
    by (simp add: processTables_def eachSeries_def emits_def)
qed

lemma emits_tail: "emits (tail env opts None)"
  using emits_js_write [of env opts] by (auto simp: emits_def tail_def)

lemma emits_writeTail: "emits (writeTail env opts)"
proof (rule emitsI)
  fix st e st'
  assume a: "writeTail env opts st = (e, st')"
  show "\<exists>evs. trace st' = trace st @ evs \<and> list_all is_io evs"
  proof (cases "modularize opts")
    case False
    with a emits_tail [of env opts] show ?thesis
      by (simp add: writeTail_def emits_def)
  next
    case True
    obtain e1 st1 where w: "js_write env opts [indent_of opts @ ''return exports;'', ''};''] st = (e1, st1)"
      by (cases "js_write env opts [indent_of opts @ ''return exports;'', ''};''] st")
    from emitsD [OF emits_js_write w] obtain evs1 where
      evs1: "trace st1 = trace st @ evs1" "list_all is_io evs1" by blast
    show ?thesis
    proof (cases e1)
      case None
      with a True w have "tail env opts None st1 = (e, st')"
        by (simp add: writeTail_def)
      from emitsD [OF emits_tail this] evs1 show ?thesis by auto
    next
      case (Some err)
      with a True w have "st' = st1"
        by (simp add: writeTail_def tail_def)
      with evs1 show ?thesis by auto
    qed
  qed
qed

lemma closes_simps [simp]:
  "closes [] = []" "closes (x # xs) = close_of x @ closes xs" "closes (xs @ ys) = closes xs @ closes ys"
  by (simp_all add: closes_def)

lemma io_no_close: "list_all is_io evs \<Longrightarrow> closes evs = []"
proof (induction evs)
  case Nil
  show ?case by simp
next
  case (Cons x evs)
  then show ?case by (cases x) simp_all
qed

lemma run_step_trace:
  assumes "emits f" and "run_step s f st = (e, st')"
  shows "\<exists>evs. list_all is_io evs \<and> trace st' = trace st @ Run s # evs @ [Next s e]"
proof -
  obtain e1 st1 where f: "f (log_event (Run s) st) = (e1, st1)"
    by (cases "f (log_event (Run s) st)")
  from emitsD [OF assms(1) f] obtain evs where
    "trace st1 = trace (log_event (Run s) st) @ evs" "list_all is_io evs" by blast
  with assms(2) f show ?thesis
    by (auto simp: run_step_def log_event_def)
qed

lemma series_run_steps:
  assumes "\<forall>sf \<in> set sfs. emits (snd sf)"
    and "series (map (\<lambda>sf. run_step (fst sf) (snd sf)) sfs) st = (e, st')"
  shows "\<exists>k. k \<le> length sfs \<and> (sfs \<noteq> [] \<longrightarrow> 1 \<le> k) \<and> (e = None \<longrightarrow> k = length sfs) \<and>
           runs (trace st') = runs (trace st) @ take k (map fst sfs) \<and>
           nexts (trace st') =
             nexts (trace st) @ zip (take k (map fst sfs)) (replicate (k - 1) None @ [e]) \<and>
           callbacks (trace st') = callbacks (trace st) \<and>
           closes (trace st') = closes (trace st)"
  using assms
proof (induction sfs arbitrary: st)
  case Nil
  then show ?case by simp
next
  case (Cons sf sfs)
  obtain e1 st1 where r: "run_step (fst sf) (snd sf) st = (e1, st1)"
    by (cases "run_step (fst sf) (snd sf) st")
  from Cons.prems have "emits (snd sf)" by simp
  from run_step_trace [OF this r] obtain evs where evs:
    "list_all is_io evs" "trace st1 = trace st @ Run (fst sf) # evs @ [Next (fst sf) e1]"
    by blast
  from evs(1) have q: "runs evs = []" "nexts evs = []" "callbacks evs = []" "closes evs = []"
    by (simp_all add: io_quiet io_no_close)
  show ?case
  proof (cases e1)
    case (Some err)
    with Cons.prems r have "e = Some err" "st' = st1" by simp_all
    with evs q Some show ?thesis
      by (intro exI [of _ 1]) simp
  next
    case None
    with Cons.prems r have s: "series (map (\<lambda>sf. run_step (fst sf) (snd sf)) sfs) st1 = (e, st')"
      by simp
    from Cons.prems have "\<forall>sf \<in> set sfs. emits (snd sf)" by simp
    from Cons.IH [OF this s] obtain k where k:
      "k \<le> length sfs" "sfs \<noteq> [] \<longrightarrow> 1 \<le> k" "e = None \<longrightarrow> k = length sfs"
      "runs (trace st') = runs (trace st1) @ take k (map fst sfs)"
      "nexts (trace st') =
         nexts (trace st1) @ zip (take k (map fst sfs)) (replicate (k - 1) None @ [e])"
      "callbacks (trace st') = callbacks (trace st1)"
      "closes (trace st') = closes (trace st1)"
      by blast
    show ?thesis
    proof (cases "sfs = []")
      case True
      with s have "e = None" "st' = st1" by simp_all
      with evs q None show ?thesis
        by (intro exI [of _ 1]) (simp add: True)
    next
      case False
      with k(2) have "1 \<le> k" by simp
      then obtain j where j: "k = Suc j" by (cases k) simp_all
      with k evs q None show ?thesis
        by (intro exI [of _ "Suc k"]) simp
    qed
  qed
qed

lemma pipeline_map:
  "pipeline env opts =
     map (\<lambda>sf. run_step (fst sf) (snd sf))
       [(OpenFile, openFile env opts), (Connect, connect env), (WriteHead, writeHead env opts),
        (FetchTables, fetchTables env opts), (ProcessTables, processTables env opts),
        (WriteTail, writeTail env opts)]"
  by (simp add: pipeline_def)

lemma initial_trace [simp]: "trace initial_state = []"
  by (simp add: initial_state_def)

lemma finish_trace:
  "trace (finish env (appError, st)) =
     trace st @
     map FsClose (case fd st of None \<Rightarrow> [] | Some d \<Rightarrow> if d \<noteq> 0 \<and> d \<noteq> 1 then [d] else []) @
     [Callback appError (Some (stats st))]"
  by (simp add: finish_def log_event_def split: option.splits)

text \<open>
  Claim C2. The runner starts the steps in the order open-file, connect, write-header,
  fetch-tables, process-tables, write-tail: the steps started are the first \<open>k\<close> of them
  (\<open>runs\<close>), each of the first \<open>k - 1\<close> has continued without error and the \<open>k\<close>-th has
  yielded the outcome of the series (\<open>nexts\<close>), which is an error unless all six have
  run. No file is closed and no callback is invoked before the steps are over. What
  follows them is \<^verbatim>\<open>fs.close\<close>, when a file other than the standard output is open, and
  one invocation of the callback, with the outcome of the series and the \<^verbatim>\<open>stats\<close> object.
\<close>

theorem pipeline_order:
  assumes "series (pipeline env opts) initial_state = (appError, st)"
  shows "\<exists>k. 1 \<le> k \<and> k \<le> 6 \<and> (appError = None \<longrightarrow> k = 6) \<and>
           runs (trace st) = take k step_order \<and>
           nexts (trace st) = zip (take k step_order) (replicate (k - 1) None @ [appError]) \<and>
           callbacks (trace st) = [] \<and> closes (trace st) = [] \<and>
           trace (run_pipeline env opts) =
             trace st @
             map FsClose (case fd st of None \<Rightarrow> [] | Some d \<Rightarrow> if d \<noteq> 0 \<and> d \<noteq> 1 then [d] else []) @
             [Callback appError (Some (stats st))] \<and>
           callbacks (trace (run_pipeline env opts)) = [(appError, Some (stats st))]"
proof -
  let ?sfs = "[(OpenFile, openFile env opts), (Connect, connect env), (WriteHead, writeHead env opts),
        (FetchTables, fetchTables env opts), (ProcessTables, processTables env opts),
        (WriteTail, writeTail env opts)]"
  have em: "\<forall>sf \<in> set ?sfs. emits (snd sf)"
    by (simp add: emits_openFile emits_connect emits_writeHead emits_fetchTables
        emits_processTables emits_writeTail)
  from assms have "series (map (\<lambda>sf. run_step (fst sf) (snd sf)) ?sfs) initial_state = (appError, st)"
    by (simp only: pipeline_map)
  from series_run_steps [OF em this] obtain k where k:
    "k \<le> length ?sfs" "?sfs \<noteq> [] \<longrightarrow> 1 \<le> k" "appError = None \<longrightarrow> k = length ?sfs"
    "runs (trace st) = runs (trace initial_state) @ take k (map fst ?sfs)"
    "nexts (trace st) =
       nexts (trace initial_state) @ zip (take k (map fst ?sfs)) (replicate (k - 1) None @ [appError])"
    "callbacks (trace st) = callbacks (trace initial_state)"
    "closes (trace st) = closes (trace initial_state)"
    by blast
  have tr: "trace (run_pipeline env opts) =
      trace st @
      map FsClose (case fd st of None \<Rightarrow> [] | Some d \<Rightarrow> if d \<noteq> 0 \<and> d \<noteq> 1 then [d] else []) @
      [Callback appError (Some (stats st))]"
    by (simp add: run_pipeline_def assms finish_trace)
  have cb: "callbacks (trace (run_pipeline env opts)) = [(appError, Some (stats st))]"
    using k(6) by (simp add: tr split: option.splits)
  from k tr cb show ?thesis
    by (intro exI [of _ k]) (simp add: step_order_def)
qed

theorem pipeline_order_witness:
  "series (pipeline (witness_env\<lparr>db_connect := Some (Error ''ECONNREFUSED'')\<rparr>) default_options)
     initial_state =
     (Some (Error ''ECONNREFUSED''),
      initial_state\<lparr>trace := [Run OpenFile, Next OpenFile None, Run Connect, DbConnect,
                               Next Connect (Some (Error ''ECONNREFUSED''))]\<rparr>) \<and>
   trace (run_pipeline (witness_env\<lparr>db_connect := Some (Error ''ECONNREFUSED'')\<rparr>) default_options) =
     [Run OpenFile, Next OpenFile None, Run Connect, DbConnect,
      Next Connect (Some (Error ''ECONNREFUSED'')),
      Callback (Some (Error ''ECONNREFUSED'')) (Some initial_stats)]"
proof -
  have h: "series (pipeline (witness_env\<lparr>db_connect := Some (Error ''ECONNREFUSED'')\<rparr>) default_options)
     initial_state =
     (Some (Error ''ECONNREFUSED''),
      initial_state\<lparr>trace := [Run OpenFile, Next OpenFile None, Run Connect, DbConnect,
                               Next Connect (Some (Error ''ECONNREFUSED''))]\<rparr>)"
    by (simp add: pipeline_def run_step_def openFile_def connect_def log_event_def
        default_options_def witness_env_def initial_state_def)
  from pipeline_order [OF h] h show ?thesis
    by (auto simp: initial_state_def)
qed


section \<open>What a run writes\<close>

lemma producesI:
  "(\<And>st e st'. P (tableNames st) \<Longrightarrow> f st = (e, st') \<Longrightarrow>
      \<exists>k \<le> length X. writes (trace st') = writes (trace st) @ take k X \<and>
           (e = None \<longrightarrow> k = length X \<and> Q (tableNames st'))) \<Longrightarrow> produces P f X Q"
  by (simp add: produces_def)

lemma producesD:
  "produces P f X Q \<Longrightarrow> P (tableNames st) \<Longrightarrow> f st = (e, st') \<Longrightarrow>
     \<exists>k \<le> length X. writes (trace st') = writes (trace st) @ take k X \<and>
           (e = None \<longrightarrow> k = length X \<and> Q (tableNames st'))"
  by (simp add: produces_def)

lemma js_write_writes:
  "js_write env opts args st = (e, st') \<Longrightarrow>
     writes (trace st') = writes (trace st) @ [write_string opts args] \<and>
     tableNames st' = tableNames st"
  by (auto simp: js_write_def Let_def log_event_def split: option.splits prod.splits if_splits)

lemma produces_js_write: "produces P (js_write env opts args) [write_string opts args] P"
proof (rule producesI)
  fix st e st'
  assume "P (tableNames st)" and "js_write env opts args st = (e, st')"
  with js_write_writes [of env opts args st e st']
  show "\<exists>k \<le> length [write_string opts args].
          writes (trace st') = writes (trace st) @ take k [write_string opts args] \<and>
          (e = None \<longrightarrow> k = length [write_string opts args] \<and> P (tableNames st'))"
    by (intro exI [of _ 1]) simp
qed

lemma produces_series_Nil: "produces P (series []) [] P"
  by (rule producesI) simp

lemma produces_series_Cons:
  assumes f: "produces P f X Q" and fs: "produces Q (series fs) Y R"
  shows "produces P (series (f # fs)) (X @ Y) R"
proof (rule producesI)
  fix st e st'
  assume P: "P (tableNames st)" and s: "series (f # fs) st = (e, st')"
  obtain e1 st1 where f1: "f st = (e1, st1)" by (cases "f st")
  from producesD [OF f P f1] obtain k1 where k1:
    "k1 \<le> length X" "writes (trace st1) = writes (trace st) @ take k1 X"
    "e1 = None \<longrightarrow> k1 = length X \<and> Q (tableNames st1)" by blast
  show "\<exists>k \<le> length (X @ Y). writes (trace st') = writes (trace st) @ take k (X @ Y) \<and>
          (e = None \<longrightarrow> k = length (X @ Y) \<and> R (tableNames st'))"
  proof (cases e1)
    case (Some err)
    with s f1 have "e = Some err" "st' = st1" by simp_all
    with k1 show ?thesis by (intro exI [of _ k1]) simp
  next
    case None
    with s f1 have s2: "series fs st1 = (e, st')" by simp
    from None k1 have Q: "Q (tableNames st1)" and kX: "k1 = length X" by simp_all
    from producesD [OF fs Q s2] obtain k2 where k2:
      "k2 \<le> length Y" "writes (trace st') = writes (trace st1) @ take k2 Y"
      "e = None \<longrightarrow> k2 = length Y \<and> R (tableNames st')" by blast
    with k1 kX show ?thesis by (intro exI [of _ "length X + k2"]) simp
  qed
qed

lemma produces_run_step:
  assumes "produces P f X Q"
  shows "produces P (run_step s f) X Q"
proof (rule producesI)
  fix st e st'
  assume P: "P (tableNames st)" and r: "run_step s f st = (e, st')"
  obtain e1 st1 where f1: "f (log_event (Run s) st) = (e1, st1)"
    by (cases "f (log_event (Run s) st)")
  from P have "P (tableNames (log_event (Run s) st))" by (simp add: log_event_def)
  from producesD [OF assms this f1] obtain k where
    "k \<le> length X" "writes (trace st1) = writes (trace (log_event (Run s) st)) @ take k X"
    "e1 = None \<longrightarrow> k = length X \<and> Q (tableNames st1)" by blast
  with r f1 show "\<exists>k \<le> length X. writes (trace st') = writes (trace st) @ take k X \<and>
          (e = None \<longrightarrow> k = length X \<and> Q (tableNames st'))"
    by (intro exI [of _ k]) (auto simp: run_step_def log_event_def)
qed

lemma produces_writes: "produces P (series (map (js_write env opts) argss)) (map (write_string opts) argss) P"
proof (induction argss)
  case Nil
  show ?case unfolding list.map by (rule produces_series_Nil)
next
  case (Cons args argss)
  from produces_series_Cons [OF produces_js_write [of P env opts args] Cons.IH]
  show ?case by (simp del: series.simps)
qed

lemma writeHead_functions_map:
  "writeHead_functions env opts = map (js_write env opts) (head_args env opts)"
  by (simp add: writeHead_functions_def head_args_def)

lemma produces_writeHead:
  "produces P (writeHead env opts) (map (write_string opts) (head_args env opts)) P"
  using produces_writes [of P env opts "head_args env opts"]
  by (simp add: produces_def writeHead_def writeHead_functions_map)

lemma produces_openFile: "produces P (openFile env opts) [] P"
  by (rule producesI)
    (auto simp: openFile_def log_event_def split: outputFile_value.splits sum.splits if_splits)

lemma produces_connect: "produces P (connect env) [] P"
  by (rule producesI) (auto simp: connect_def log_event_def)

lemma produces_fetchTables:
  "produces P (fetchTables env opts) [] (\<lambda>T. T = tables_of env opts)"
  by (rule producesI) (auto simp: fetchTables_def log_event_def tables_of_def split: sum.splits)

lemma produces_writeTable:
  "produces P (writeTable env opts t) [write_string opts (table_args env opts t)] P"
proof (rule producesI)
  fix st e st'
  assume P: "P (tableNames st)" and a: "writeTable env opts t st = (e, st')"
  show "\<exists>k \<le> length [write_string opts (table_args env opts t)].
          writes (trace st') = writes (trace st) @ take k [write_string opts (table_args env opts t)] \<and>
          (e = None \<longrightarrow> k = length [write_string opts (table_args env opts t)] \<and> P (tableNames st'))"
  proof (cases "getListOfColumns env t")
    case (Inl err)
    with a show ?thesis
      by (intro exI [of _ 0]) (auto simp: writeTable_def log_event_def set_table_def)
  next
    case (Inr cols)
    with a have w: "js_write env opts (writeTable_args opts t cols)
        (set_table t (map columnStat cols) (log_event (DbColumns t) st)) = (e, st')"
      by (simp add: writeTable_def)
    from Inr have "table_args env opts t = writeTable_args opts t cols"
      by (simp add: table_args_def columns_of_def)
    with js_write_writes [OF w] P show ?thesis
      by (intro exI [of _ 1]) (simp add: set_table_def log_event_def)
  qed
qed

lemma produces_tables:
  "produces P (series (map (writeTable env opts) ts))
     (map (\<lambda>t. write_string opts (table_args env opts t)) ts) P"
proof (induction ts)
  case Nil
  show ?case unfolding list.map by (rule produces_series_Nil)
next
  case (Cons t ts)
  from produces_series_Cons [OF produces_writeTable [of P env opts t] Cons.IH]
  show ?case by (simp del: series.simps)
qed

lemma produces_processTables:
  "produces (\<lambda>T. T = tables_of env opts) (processTables env opts)
     (map (\<lambda>t. write_string opts (table_args env opts t)) (tables_of env opts)) (\<lambda>T. True)"
proof (rule producesI)
  fix st e st'
  assume T: "tableNames st = tables_of env opts" and a: "processTables env opts st = (e, st')"
  then have "series (map (writeTable env opts) (tables_of env opts)) st = (e, st')"
    by (simp add: processTables_def eachSeries_def)
  from producesD [OF produces_tables [of "\<lambda>T. True"] _ this]
  show "\<exists>k \<le> length (map (\<lambda>t. write_string opts (table_args env opts t)) (tables_of env opts)).
          writes (trace st') =
            writes (trace st) @ take k (map (\<lambda>t. write_string opts (table_args env opts t)) (tables_of env opts)) \<and>
          (e = None \<longrightarrow>
             k = length (map (\<lambda>t. write_string opts (table_args env opts t)) (tables_of env opts)) \<and> True)"
    by simp
qed

lemma produces_writeTail:
  "produces P (writeTail env opts) (map (write_string opts) (tail_args opts)) P"
proof (rule producesI)
  fix st e st'
  assume P: "P (tableNames st)" and a: "writeTail env opts st = (e, st')"
  let ?X = "map (write_string opts) (tail_args opts)"
  show "\<exists>k \<le> length ?X. writes (trace st') = writes (trace st) @ take k ?X \<and>
          (e = None \<longrightarrow> k = length ?X \<and> P (tableNames st'))"
  proof (cases "modularize opts")
    case False
    show ?thesis
    proof (cases "truthy (append_opt opts)")
      case True
      with False a have "js_write env opts [or_default (append_opt opts) []] st = (e, st')"
        by (simp add: writeTail_def tail_def)
      from js_write_writes [OF this] P False True show ?thesis
        by (intro exI [of _ 1]) (simp add: tail_args_def)
    next
      case na: False
      with False a P show ?thesis
        by (intro exI [of _ 0]) (simp add: writeTail_def tail_def tail_args_def)
    qed
  next
    case True
    obtain e1 st1 where w: "js_write env opts [indent_of opts @ ''return exports;'', ''};''] st = (e1, st1)"
      by (cases "js_write env opts [indent_of opts @ ''return exports;'', ''};''] st")
    note w1 = js_write_writes [OF w]
    show ?thesis
    proof (cases e1)
      case (Some err)
      with a True w have "e = Some err" "st' = st1"
        by (simp_all add: writeTail_def tail_def)
      with w1 True show ?thesis
        by (intro exI [of _ 1]) (simp add: tail_args_def)
    next
      case None
      show ?thesis
      proof (cases "truthy (append_opt opts)")
        case ap: True
        with None a True w have "js_write env opts [or_default (append_opt opts) []] st1 = (e, st')"
          by (simp add: writeTail_def tail_def)
        from js_write_writes [OF this] w1 P True ap show ?thesis
          by (intro exI [of _ 2]) (simp add: tail_args_def)
      next
        case na: False
        with None a True w have "e = None" "st' = st1"
          by (simp_all add: writeTail_def tail_def)
        with w1 P True na show ?thesis
          by (intro exI [of _ 1]) (simp add: tail_args_def)
      qed
    qed
  qed
qed

lemma produces_pipeline:
  "produces (\<lambda>T. True) (series (pipeline env opts)) (map (write_string opts) (all_args env opts)) (\<lambda>T. True)"
proof -
  note s1 = produces_run_step [OF produces_openFile [of "\<lambda>T. True" env opts], of OpenFile]
  note s2 = produces_run_step [OF produces_connect [of "\<lambda>T. True" env], of Connect]
  note s3 = produces_run_step [OF produces_writeHead [of "\<lambda>T. True" env opts], of WriteHead]
  note s4 = produces_run_step [OF produces_fetchTables [of "\<lambda>T. True" env opts], of FetchTables]
  note s5 = produces_run_step [OF produces_processTables [of env opts], of ProcessTables]
  note s6 = produces_run_step [OF produces_writeTail [of "\<lambda>T. True" env opts], of WriteTail]
  note s7 = produces_series_Nil [of "\<lambda>T. True"]
  note c6 = produces_series_Cons [OF s6 s7]
  note c5 = produces_series_Cons [OF s5 c6]
  note c4 = produces_series_Cons [OF s4 c5]
  note c3 = produces_series_Cons [OF s3 c4]
  note c2 = produces_series_Cons [OF s2 c3]
  note c1 = produces_series_Cons [OF s1 c2]
  from c1 have "produces (\<lambda>T. True) (series (pipeline env opts))
      ([] @ [] @ map (write_string opts) (head_args env opts) @ [] @
       map (\<lambda>t. write_string opts (table_args env opts t)) (tables_of env opts) @
       map (write_string opts) (tail_args opts) @ []) (\<lambda>T. True)"
    unfolding pipeline_def .
  then show ?thesis
    by (simp add: all_args_def comp_def)
qed

lemma pipeline_writes:
  assumes "series (pipeline env opts) initial_state = (e, st)"
  shows "\<exists>k \<le> length (all_args env opts).
           writes (trace st) = take k (map (write_string opts) (all_args env opts)) \<and>
           (e = None \<longrightarrow> k = length (all_args env opts))"
  using producesD [OF produces_pipeline _ assms] by simp


section \<open>The byte count\<close>

lemma opens_simps [simp]:
  "opens [] = []" "opens (x # xs) = open_of x @ opens xs" "opens (xs @ ys) = opens xs @ opens ys"
  by (simp_all add: opens_def)

lemma preservesI: "(\<And>st e st'. I st \<Longrightarrow> f st = (e, st') \<Longrightarrow> I st') \<Longrightarrow> preserves I f"
  by (simp add: preserves_def)

lemma preservesD: "preserves I f \<Longrightarrow> I st \<Longrightarrow> f st = (e, st') \<Longrightarrow> I st'"
  by (auto simp: preserves_def)

lemma preserves_series:
  assumes "\<forall>f \<in> set fs. preserves I f"
  shows "preserves I (series fs)"
proof (rule preservesI)
  fix st e st'
  assume "I st" and "series fs st = (e, st')"
  with assms show "I st'"
  proof (induction fs arbitrary: st)
    case Nil
    then show ?case by simp
  next
    case (Cons f fs)
    obtain e1 st1 where f: "f st = (e1, st1)" by (cases "f st")
    from Cons.prems have "preserves I f" by simp
    from preservesD [OF this Cons.prems(2) f] have I1: "I st1" .
    show ?case
    proof (cases e1)
      case None
      with Cons.prems f have "series fs st1 = (e, st')" by simp
      with Cons.IH [of st1] Cons.prems(1) I1 show ?thesis by simp
    next
      case (Some err)
      with Cons.prems f I1 show ?thesis by simp
    qed
  qed
qed

lemma preserves_run_step:
  assumes "preserves I f" and "\<And>st ev. \<not> is_io ev \<Longrightarrow> I st \<Longrightarrow> I (log_event ev st)"
  shows "preserves I (run_step s f)"
proof (rule preservesI)
  fix st e st'
  assume I: "I st" and r: "run_step s f st = (e, st')"
  obtain e1 st1 where f: "f (log_event (Run s) st) = (e1, st1)"
    by (cases "f (log_event (Run s) st)")
  from assms(2) [of "Run s" st] I have "I (log_event (Run s) st)" by simp
  from preservesD [OF assms(1) this f] have "I st1" .
  with assms(2) [of "Next s e1" st1] have "I (log_event (Next s e1) st1)" by simp
  with r f show "I st'" by (auto simp: run_step_def)
qed

lemma preserves_pipeline:
  assumes "\<And>st ev. \<not> is_io ev \<Longrightarrow> I st \<Longrightarrow> I (log_event ev st)"
    and "preserves I (openFile env opts)" and "preserves I (connect env)"
    and "\<And>args. preserves I (js_write env opts args)"
    and "preserves I (fetchTables env opts)"
    and "\<And>t st. I st \<Longrightarrow> I (log_event (DbColumns t) st)"
    and "\<And>t cols st. I st \<Longrightarrow> I (set_table t cols st)"
  shows "preserves I (series (pipeline env opts))"
proof -
  have head: "preserves I (writeHead env opts)"
  proof -
    have "\<forall>f \<in> set (writeHead_functions env opts). preserves I f"
      by (auto simp: writeHead_functions_def assms(4))
    then have "preserves I (series (writeHead_functions env opts))"
      by (rule preserves_series)
    then show ?thesis by (simp add: preserves_def writeHead_def)
  qed
  have table: "preserves I (writeTable env opts t)" for t
  proof (rule preservesI)
    fix st e st'
    assume I: "I st" and a: "writeTable env opts t st = (e, st')"
    show "I st'"
    proof (cases "getListOfColumns env t")
      case (Inl err)
      with a have "st' = log_event (DbColumns t) (set_table t [] st)"
        by (simp add: writeTable_def)
      with I assms(6,7) show ?thesis by simp
    next
      case (Inr cols)
      with a have "js_write env opts (writeTable_args opts t cols)
          (set_table t (map columnStat cols) (log_event (DbColumns t) st)) = (e, st')"
        by (simp add: writeTable_def)
      moreover from I assms(6,7)
      have "I (set_table t (map columnStat cols) (log_event (DbColumns t) st))" by simp
      ultimately show ?thesis
        using preservesD [OF assms(4)] by blast
    qed
  qed
  have tables: "preserves I (processTables env opts)"
  proof (rule preservesI)
    fix st e st'
    assume I: "I st" and a: "processTables env opts st = (e, st')"
    have "preserves I (series (map (writeTable env opts) (tableNames st)))"
      by (rule preserves_series) (simp add: table)
    from preservesD [OF this I] a show "I st'"
      by (simp add: processTables_def eachSeries_def)
  qed
  have tail: "preserves I (writeTail env opts)"
  proof (rule preservesI)
    fix st e st'
    assume I: "I st" and a: "writeTail env opts st = (e, st')"
    have t: "I st2" if "I st1" and "tail env opts e1 st1 = (e, st2)" for e1 st1 st2
      using that preservesD [OF assms(4), of st1 "[or_default (append_opt opts) []]" e st2]
      by (auto simp: tail_def split: option.splits if_splits)
    show "I st'"
    proof (cases "modularize opts")
      case False
      with a t [OF I] show ?thesis by (simp add: writeTail_def)
    next
      case True
      obtain e1 st1 where w: "js_write env opts [indent_of opts @ ''return exports;'', ''};''] st = (e1, st1)"
        by (cases "js_write env opts [indent_of opts @ ''return exports;'', ''};''] st")
      from preservesD [OF assms(4) I w] have "I st1" .
      with a True w t show ?thesis by (simp add: writeTail_def)
    qed
  qed
  have "\<forall>f \<in> set (pipeline env opts). preserves I f"
    by (simp add: pipeline_def preserves_run_step assms(1,2,3,5) head tables tail)
  then show ?thesis by (rule preserves_series)
qed

lemma not_io_projections:
  "\<not> is_io ev \<Longrightarrow> write_text ev = [] \<and> fs_write_of ev = [] \<and> open_of ev = []"
  by (cases ev) simp_all

lemma js_write_bytesWritten:
  assumes "js_write env opts args st = (e, st')"
    and "bytesWritten (stats st) = Undefined \<or> bytesWritten (stats st) = Number NaN"
  shows "bytesWritten (stats st') = Number NaN"
  using assms
  by (auto simp: js_write_def Let_def log_event_def add_bytes_def fd_open_def
      split: option.splits prod.splits if_splits)

lemma bytes_inv_pipeline: "preserves bytes_inv (series (pipeline env opts))"
proof (rule preserves_pipeline)
  show "bytes_inv (log_event ev st)" if "\<not> is_io ev" "bytes_inv st" for st ev
    using that not_io_projections [of ev] by (simp add: bytes_inv_def log_event_def)
  show "preserves bytes_inv (openFile env opts)"
    by (rule preservesI)
      (auto simp: bytes_inv_def openFile_def log_event_def
        split: outputFile_value.splits sum.splits if_splits)
  show "preserves bytes_inv (connect env)"
    by (rule preservesI) (auto simp: bytes_inv_def connect_def log_event_def)
  show "preserves bytes_inv (js_write env opts args)" for args
  proof (rule preservesI)
    fix st e st'
    assume I: "bytes_inv st" and w: "js_write env opts args st = (e, st')"
    from I have "bytesWritten (stats st) = Undefined \<or> bytesWritten (stats st) = Number NaN"
      by (simp add: bytes_inv_def split: if_splits)
    from js_write_bytesWritten [OF w this] js_write_writes [OF w]
    show "bytes_inv st'" by (simp add: bytes_inv_def)
  qed
  show "preserves bytes_inv (fetchTables env opts)"
    by (rule preservesI) (auto simp: bytes_inv_def fetchTables_def log_event_def split: sum.splits)
  show "bytes_inv (log_event (DbColumns t) st)" if "bytes_inv st" for t st
    using that by (simp add: bytes_inv_def log_event_def)
  show "bytes_inv (set_table t cols st)" if "bytes_inv st" for t cols st
    using that by (simp add: bytes_inv_def set_table_def)
qed

lemma callbacks_run_pipeline:
  assumes "series (pipeline env opts) initial_state = (appError, st)"
  shows "callbacks (trace (run_pipeline env opts)) = [(appError, Some (stats st))]"
proof -
  let ?sfs = "[(OpenFile, openFile env opts), (Connect, connect env), (WriteHead, writeHead env opts),
        (FetchTables, fetchTables env opts), (ProcessTables, processTables env opts),
        (WriteTail, writeTail env opts)]"
  have em: "\<forall>sf \<in> set ?sfs. emits (snd sf)"
    by (simp add: emits_openFile emits_connect emits_writeHead emits_fetchTables
        emits_processTables emits_writeTail)
  from assms have "series (map (\<lambda>sf. run_step (fst sf) (snd sf)) ?sfs) initial_state = (appError, st)"
    by (simp only: pipeline_map)
  from series_run_steps [OF em this] have "callbacks (trace st) = []"
    by auto
  then show ?thesis
    by (simp add: run_pipeline_def assms finish_trace split: option.splits)
qed

text \<open>
  Claim C3. The claim says that after every write \<^verbatim>\<open>stats.bytesWritten\<close> is the sum of the
  byte lengths written so far and that the callback receives this total as a number. The
  \<^verbatim>\<open>stats\<close> object is created with a property \<^verbatim>\<open>written: 0\<close>, while \<^verbatim>\<open>write\<close> adds to
  \<^verbatim>\<open>stats.bytesWritten\<close>, which is \<^verbatim>\<open>undefined\<close> at first: the first addition gives \<^verbatim>\<open>NaN\<close>
  and every later one leaves it. So in every run \<^verbatim>\<open>stats.bytesWritten\<close> is \<^verbatim>\<open>undefined\<close> as
  long as nothing is written and \<^verbatim>\<open>NaN\<close> afterwards, never a number of bytes, and this is
  the \<^verbatim>\<open>stats\<close> object the callback receives.
\<close>

theorem bytesWritten_not_a_total:
  assumes "series (pipeline env opts) initial_state = (appError, st)"
  shows "bytesWritten (stats st) = (if writes (trace st) = [] then Undefined else Number NaN) \<and>
         callbacks (trace (run_pipeline env opts)) = [(appError, Some (stats st))]"
proof -
  have "bytes_inv initial_state"
    by (simp add: bytes_inv_def initial_state_def initial_stats_def)
  from preservesD [OF bytes_inv_pipeline this assms] callbacks_run_pipeline [OF assms]
  show ?thesis by (simp add: bytes_inv_def)
qed

theorem bytesWritten_not_a_total_witness:
  "generate shop_env
     (default_options\<lparr>dsn := Some ''mysql://root@localhost/shop'', indent := Some ''  '',
                      prepend := Some ''// begin'', append_opt := Some ''// end''\<rparr>) =
     Events (trace (run_pipeline shop_env shop_options)) \<and>
   map (\<lambda>r. (fst r, map_option bytesWritten (snd r), map_option (length \<circ> buffer) (snd r)))
     (callbacks (trace (run_pipeline shop_env shop_options))) = [(None, Some (Number NaN), Some 256)]"
proof -
  have ok: "fst (series (pipeline shop_env shop_options) initial_state) = None"
    by (simp add: run_defs shop_env_def shop_options_def)
  then have run: "series (pipeline shop_env shop_options) initial_state =
      (None, snd (series (pipeline shop_env shop_options) initial_state))"
    by (simp add: prod_eq_iff)
  have gen: "generate shop_env
     (default_options\<lparr>dsn := Some ''mysql://root@localhost/shop'', indent := Some ''  '',
                      prepend := Some ''// begin'', append_opt := Some ''// end''\<rparr>) =
     Events (trace (run_pipeline shop_env shop_options))"
    by (simp add: generate_def resolveDialect_def inferDialect_def dsn_match_def toLowerCase_def
        toLowerChar_def supported_def supportedDialects_def dialectOptions_def or_else_def
        truthy_def or_default_def default_options_def shop_options_def shop_env_def
        witness_env_def)
  from bytesWritten_not_a_total [OF run] gen show ?thesis
    by (simp add: run_defs text_defs shop_env_def shop_options_def columnStat_def)
qed


section \<open>Output in memory\<close>

lemma memory_inv_pipeline:
  assumes "\<forall>path. outputFile opts \<noteq> OutString path" and "outputFile opts \<noteq> OutNumber 1"
  shows "preserves (memory_inv env opts) (series (pipeline env opts))"
proof (rule preserves_pipeline)
  show "memory_inv env opts (log_event ev st)" if "\<not> is_io ev" "memory_inv env opts st" for st ev
    using that not_io_projections [of ev] by (simp add: memory_inv_def log_event_def)
  show "preserves (memory_inv env opts) (openFile env opts)"
    using assms
    by (intro preservesI) (auto simp: openFile_def split: outputFile_value.splits if_splits)
  show "preserves (memory_inv env opts) (connect env)"
    by (rule preservesI) (auto simp: memory_inv_def connect_def log_event_def)
  show "preserves (memory_inv env opts) (js_write env opts args)" for args
    by (rule preservesI)
      (auto simp: memory_inv_def decoded_def js_write_def Let_def log_event_def add_bytes_def
        fd_open_def)
  show "preserves (memory_inv env opts) (fetchTables env opts)"
    by (rule preservesI) (auto simp: memory_inv_def fetchTables_def log_event_def split: sum.splits)
  show "memory_inv env opts (log_event (DbColumns t) st)" if "memory_inv env opts st" for t st
    using that by (simp add: memory_inv_def log_event_def)
  show "memory_inv env opts (set_table t cols st)" if "memory_inv env opts st" for t cols st
    using that by (simp add: memory_inv_def set_table_def)
qed

lemma memory_run:
  assumes "series (pipeline env opts) initial_state = (appError, st)"
    and "\<forall>path. outputFile opts \<noteq> OutString path" and "outputFile opts \<noteq> OutNumber 1"
  shows "fd st = None \<and> opens (trace st) = [] \<and> fs_writes (trace st) = [] \<and>
         buffer (stats st) = concat (map (decoded env opts) (writes (trace st)))"
proof -
  have "memory_inv env opts initial_state"
    by (simp add: memory_inv_def initial_state_def initial_stats_def)
  from preservesD [OF memory_inv_pipeline [OF assms(2,3)] this assms(1)] show ?thesis
    by (simp add: memory_inv_def)
qed

text \<open>
  With an encoding that \<^verbatim>\<open>toString()\<close> undoes, as the default \<^verbatim>\<open>utf8\<close> on well-formed text,
  the buffer is the text written.
\<close>

lemma memory_run_text:
  assumes "series (pipeline env opts) initial_state = (appError, st)"
    and "\<forall>path. outputFile opts \<noteq> OutString path" and "outputFile opts \<noteq> OutNumber 1"
    and "\<forall>string. Buffer_toString env (Buffer_new env (encoding_of opts) string) = string"
  shows "buffer (stats st) = concat (writes (trace st))"
proof -
  from assms(4) have "map (decoded env opts) (writes (trace st)) = writes (trace st)"
    by (simp add: decoded_def map_idI)
  with memory_run [OF assms(1,2,3)] show ?thesis by simp
qed

text \<open>
  Claim C10. Every call of \<^verbatim>\<open>write\<close> builds its text from its arguments but the
  continuation: the non-empty ones joined with \<^verbatim>\<open>options.eol\<close>, and one final
  \<^verbatim>\<open>options.eol\<close>; the texts written in a run are those of the argument lists of the run, in
  order, all of them when no step fails. When \<^verbatim>\<open>options.outputFile\<close> is neither a string
  nor the number 1, no file is opened and \<^verbatim>\<open>fs.write\<close> is never called. What accumulates in
  the \<^verbatim>\<open>buffer\<close> of the \<^verbatim>\<open>stats\<close> object that the callback receives is, however, not the text
  as the claim says, but every text encoded with \<^verbatim>\<open>options.encoding\<close> and decoded as UTF-8 by
  \<^verbatim>\<open>buffer.toString()\<close>: the text itself for the default encoding (\<open>memory_run_text\<close>), and
  for the encoding \<^verbatim>\<open>ucs2\<close> the text with a zero character after each of its characters.
\<close>

theorem write_accumulates_in_memory:
  assumes "series (pipeline env opts) initial_state = (appError, st)"
  shows "(\<exists>k \<le> length (all_args env opts).
            writes (trace st) =
              take k (map (\<lambda>args. join (eol_of opts) (filter (\<lambda>message. message \<noteq> []) args) @ eol_of opts)
                        (all_args env opts)) \<and>
            (appError = None \<longrightarrow> k = length (all_args env opts))) \<and>
         ((\<forall>path. outputFile opts \<noteq> OutString path) \<and> outputFile opts \<noteq> OutNumber 1 \<longrightarrow>
            fd st = None \<and> opens (trace st) = [] \<and> fs_writes (trace st) = [] \<and>
            buffer (stats st) =
              concat (map (\<lambda>string. Buffer_toString env (Buffer_new env (encoding_of opts) string))
                        (writes (trace st))) \<and>
            callbacks (trace (run_pipeline env opts)) = [(appError, Some (stats st))])"
proof -
  have w: "\<exists>k \<le> length (all_args env opts).
            writes (trace st) =
              take k (map (\<lambda>args. join (eol_of opts) (filter (\<lambda>message. message \<noteq> []) args) @ eol_of opts)
                        (all_args env opts)) \<and>
            (appError = None \<longrightarrow> k = length (all_args env opts))"
    using pipeline_writes [OF assms] by (simp add: write_string_def [abs_def])
  have m: "fd st = None \<and> opens (trace st) = [] \<and> fs_writes (trace st) = [] \<and>
      buffer (stats st) =
        concat (map (\<lambda>string. Buffer_toString env (Buffer_new env (encoding_of opts) string))
                  (writes (trace st)))"
    if "\<forall>path. outputFile opts \<noteq> OutString path" and "outputFile opts \<noteq> OutNumber 1"
    using memory_run [OF assms that] by (simp add: decoded_def [abs_def])
  from w m callbacks_run_pipeline [OF assms] show ?thesis by blast
qed

theorem write_accumulates_in_memory_witness:
  "generate witness_env
     (default_options\<lparr>dsn := Some ''mysql://root@localhost/shop'', encoding := Some ''ucs2'',
                      omitComments := True\<rparr>) =
     Events (trace (run_pipeline witness_env ucs2_options)) \<and>
   outputFile ucs2_options = OutUndefined \<and>
   fst (series (pipeline witness_env ucs2_options) initial_state) = None \<and>
   writes (trace (snd (series (pipeline witness_env ucs2_options) initial_state))) =
     [''var sql = require('sql');\<newline>\<newline>\<newline>''] \<and>
   map (map_option buffer \<circ> snd) (callbacks (trace (run_pipeline witness_env ucs2_options))) =
     [Some (ucs2_ascii ''var sql = require('sql');\<newline>\<newline>\<newline>'')] \<and>
   ucs2_ascii ''var sql = require('sql');\<newline>\<newline>\<newline>'' \<noteq> ''var sql = require('sql');\<newline>\<newline>\<newline>''"
proof -
  have ok: "fst (series (pipeline witness_env ucs2_options) initial_state) = None"
    by (simp add: run_defs ucs2_options_def)
  then have run: "series (pipeline witness_env ucs2_options) initial_state =
      (None, snd (series (pipeline witness_env ucs2_options) initial_state))"
    by (simp add: prod_eq_iff)
  have out: "outputFile ucs2_options = OutUndefined"
    by (simp add: ucs2_options_def default_options_def)
  have w: "writes (trace (snd (series (pipeline witness_env ucs2_options) initial_state))) =
      [''var sql = require('sql');\<newline>\<newline>\<newline>'']"
    by (simp add: run_defs ucs2_options_def)
  have gen: "generate witness_env
     (default_options\<lparr>dsn := Some ''mysql://root@localhost/shop'', encoding := Some ''ucs2'',
                      omitComments := True\<rparr>) =
     Events (trace (run_pipeline witness_env ucs2_options))"
    by (simp add: generate_def resolveDialect_def inferDialect_def dsn_match_def toLowerCase_def
        toLowerChar_def supported_def supportedDialects_def dialectOptions_def or_else_def
        truthy_def or_default_def default_options_def ucs2_options_def witness_env_def)
  have enc: "encoding_of ucs2_options = ''ucs2''"
    by (simp add: encoding_of_def or_default_def ucs2_options_def)
  have ne: "ucs2_ascii ''var sql = require('sql');\<newline>\<newline>\<newline>'' \<noteq> ''var sql = require('sql');\<newline>\<newline>\<newline>''"
    by (simp add: ucs2_ascii_def)
  from write_accumulates_in_memory [OF run] out w enc
  have "map (map_option buffer \<circ> snd) (callbacks (trace (run_pipeline witness_env ucs2_options))) =
     [Some (ucs2_ascii ''var sql = require('sql');\<newline>\<newline>\<newline>'')]"
    by (simp add: witness_env_def)
  with gen out ok w ne show ?thesis
    by (intro conjI)
qed


section \<open>The text of a run line by line\<close>

lemma eol_nonempty [simp]: "eol_of opts \<noteq> []"
  by (simp add: eol_of_def or_default_def split: option.splits)

lemma indent_nonempty [simp]: "indent_of opts \<noteq> []"
  by (simp add: indent_of_def or_default_def split: option.splits)




lemma columnString_nonempty [simp]: "columnString opts ind col \<noteq> []"
  by (simp add: columnString_def)

lemma join_empty: "\<forall>x \<in> set xs. x \<noteq> [] \<Longrightarrow> join sep xs = [] \<longleftrightarrow> xs = []"
  by (induction sep xs rule: join.induct) simp_all

lemma columns_empty [simp]:
  "join sep (map (columnString opts ind) cols) = [] \<longleftrightarrow> cols = []"
  using join_empty [of "map (columnString opts ind) cols" sep] by simp

















section \<open>Parsing the mssql connection string\<close>





















end
